theory Spec2Isabelle
  imports Complex_Main "HOL-Library.Word" "HOL-Library.Monad_Syntax" "HOL-Library.Multiset"
begin

unbundle bit_operations_syntax

section \<open>The heap manager of runtime/gc/heap.cc\<close>

text \<open>
  A shallow embedding of the parts of \<^verbatim>\<open>art::gc::Heap\<close> (src/runtime/gc/heap.cc) that
  decide the allocation slow path, collector selection and transition, the growth
  policy, native accounting, reference processing and the zygote bin packing.

  Conventions.
  \<^item> The targets of this tree are 32-bit (asm_support.h places the lock word at offset
    4), so \<^verbatim>\<open>size_t\<close>, \<^verbatim>\<open>uintptr_t\<close> and \<^verbatim>\<open>int\<close> are 32-bit words and
    \<^verbatim>\<open>uint64_t\<close> is a 64-bit word; \<open>+\<close>, \<open>-\<close> and \<open>*\<close> wrap as in C++.
  \<^item> A member \<^verbatim>\<open>foo_\<close> of the class is the field \<open>foo\<close> of the record \<open>heap\<close>.
  \<^item> Code of the runtime that is not in heap.cc (the collectors, the allocators, the
    thread list, other threads running in between, floating-point arithmetic) is a
    field of the record \<open>env\<close>: the model is a function of it and every theorem
    holds for each environment that satisfies the stated hypotheses.
  \<^item> \<^verbatim>\<open>LOG(FATAL)\<close> and a failed \<^verbatim>\<open>CHECK\<close> end the process: the result \<open>Fatal\<close>.
    A call that blocks for ever has the value \<open>None\<close>.
    \<^verbatim>\<open>VLOG\<close>, \<^verbatim>\<open>LOG(INFO)\<close>, tracing and the runtime statistics counters are left
    out; \<^verbatim>\<open>LOG(WARNING)\<close>, thrown exceptions and the calls into other components are
    events.
  \<^item> \<^verbatim>\<open>DCHECK\<close>s are compiled out of release builds. The heap actions are those of a
    release build; reference processing takes \<^verbatim>\<open>kIsDebugBuild\<close> as a parameter and a
    failed \<^verbatim>\<open>DCHECK\<close> of a debug build is the result \<open>Fatal\<close>.
\<close>

subsection \<open>Enumerations and plain data\<close>

type_synonym size_t = "32 word"
type_synonym uint64_t = "64 word"
type_synonym obj = "32 word"

datatype GcType = kGcTypeNone | kGcTypeSticky | kGcTypePartial | kGcTypeFull | kGcTypeMax

datatype GcCause = kGcCauseForAlloc | kGcCauseBackground | kGcCauseExplicit
  | kGcCauseForNativeAlloc | kGcCauseCollectorTransition

datatype CollectorType = kCollectorTypeNone | kCollectorTypeMS | kCollectorTypeCMS
  | kCollectorTypeSS | kCollectorTypeGSS

datatype AllocatorType = kAllocatorTypeBumpPointer | kAllocatorTypeTLAB
  | kAllocatorTypeRosAlloc | kAllocatorTypeDlMalloc | kAllocatorTypeNonMoving
  | kAllocatorTypeLOS

datatype ProcessState = kProcessStateJankPerceptible | kProcessStateJankImperceptible

text \<open>What the heap asks of a \<^verbatim>\<open>collector::GarbageCollector\<close>: its name, whether it is
  concurrent and the GC type it performs.\<close>

record collector =
  GetName :: string
  IsConcurrent :: bool
  GetGcType :: GcType

text \<open>A space and the memory mapping that backs it are one identifier.\<close>

type_synonym space = nat

text \<open>What one run of a collector reports back.\<close>

record gc_stats =
  GetFreedObjects :: size_t
  GetFreedBytes :: size_t
  GetDurationNs :: uint64_t

datatype event =
    LogWarning string
  | Run collector GcCause bool
  | SetFromSpace "space option"
  | SetToSpace "space option"
  | SuspendAll
  | ResumeAll
  | Mprotect space
  | Madvise space
  | AddSpace space
  | RemoveSpace space
  | ReferenceQueueAdd "obj list"
  | SetQuickAllocEntryPointsAllocator AllocatorType
  | GcDidFinish
  | ThrowOutOfMemoryError size_t
  | ThrowRuntimeException

text \<open>The two \<open>Throw\<close> events are the exceptions raised on the calling thread.\<close>

subsection \<open>The heap\<close>

record heap =
  main_space :: "space option"
  concurrent_gc :: bool
  collector_type :: CollectorType
  post_zygote_collector_type :: CollectorType
  background_collector_type :: CollectorType
  ignore_max_footprint :: bool
  have_zygote_space :: bool
  cleared_references :: "obj list"
  is_gc_running :: bool
  last_gc_type :: GcType
  next_gc_type :: GcType
  growth_limit :: size_t
  max_allowed_footprint :: size_t
  native_need_to_run_finalization :: bool
  process_state :: ProcessState
  concurrent_start_bytes :: size_t
  total_bytes_freed_ever :: size_t
  total_objects_freed_ever :: size_t
  num_bytes_allocated :: size_t
  native_bytes_allocated :: "32 word"
  last_gc_size :: size_t
  last_gc_time_ns :: uint64_t
  allocation_rate :: uint64_t
  current_allocator :: AllocatorType
  bump_pointer_space :: "space option"
  temp_space :: "space option"
  min_free :: size_t
  max_free :: size_t
  target_utilization :: real
  total_wait_time :: uint64_t
  disable_moving_gc_count :: size_t
  gc_plan :: "GcType list"
  garbage_collectors :: "collector list"
  semi_space_collector :: "collector option"
  allocator_mem_map :: "space option"
  use_tlab :: bool
  NanoTime :: uint64_t

text \<open>\<open>NanoTime h\<close> is what the clock reads in state \<open>h\<close>; it advances inside the
  operations of the environment (a collector's run, a wait), not between the
  statements of the heap's own functions.\<close>

subsection \<open>The environment\<close>

text \<open>
  \<^item> \<open>kUseRosAlloc\<close>, \<open>kMovingCollector\<close>: build constants of globals.h.
  \<^item> \<open>IsCompactingGC\<close>: the predicate of heap.h on collector types.
  \<^item> \<open>IsStarted\<close>, \<open>IsZygote\<close>: \<^verbatim>\<open>Runtime::Current()->IsStarted()\<close>, \<^verbatim>\<open>->IsZygote()\<close>.
  \<^item> \<open>IsHandlingStackOverflow\<close>: of the calling thread.
  \<^item> \<open>CondWait\<close>: \<^verbatim>\<open>gc_complete_cond_->Wait(self)\<close>, the state when the calling thread
    wakes up again, after other threads ran.
  \<^item> \<open>usleep\<close>: the state after \<^verbatim>\<open>usleep(100)\<close>, likewise.
  \<^item> \<open>CollectorRun c cause clear_soft\<close>: \<^verbatim>\<open>c->Run(cause, clear_soft)\<close>, with the
    figures the collector reports afterwards.
  \<^item> \<open>TempSpaceIsEmpty\<close>: \<^verbatim>\<open>temp_space_->IsEmpty()\<close>.
  \<^item> \<open>TryToAllocate grow allocator size\<close>: \<^verbatim>\<open>TryToAllocate<true, grow>\<close> of heap-inl.h;
    \<open>None\<close> is the null pointer.
  \<^item> \<open>double_div n u\<close>: the \<^verbatim>\<open>size_t\<close> that the double quotient \<^verbatim>\<open>n / u\<close> converts to.
  \<^item> \<open>double_mul_seconds r ms\<close>: the \<^verbatim>\<open>size_t\<close> that the double product
    \<^verbatim>\<open>r * (ms / 1000.0)\<close> converts to.
\<close>

record env =
  kUseRosAlloc :: bool
  kMovingCollector :: bool
  IsCompactingGC :: "CollectorType \<Rightarrow> bool"
  IsStarted :: bool
  IsZygote :: bool
  IsHandlingStackOverflow :: bool
  CondWait :: "heap \<Rightarrow> heap"
  usleep :: "heap \<Rightarrow> heap"
  CollectorRun :: "collector \<Rightarrow> GcCause \<Rightarrow> bool \<Rightarrow> heap \<Rightarrow> gc_stats \<times> heap"
  TempSpaceIsEmpty :: "heap \<Rightarrow> bool"
  TryToAllocate :: "bool \<Rightarrow> AllocatorType \<Rightarrow> size_t \<Rightarrow> heap \<Rightarrow> obj option \<times> heap"
  double_div :: "size_t \<Rightarrow> real \<Rightarrow> size_t"
  double_mul_seconds :: "uint64_t \<Rightarrow> uint64_t \<Rightarrow> size_t"

text \<open>The two floating-point operations when the double arithmetic is exact (no
  rounding of the quotient or product before the truncation to \<^verbatim>\<open>size_t\<close>).\<close>

definition exact_double_div :: "size_t \<Rightarrow> real \<Rightarrow> size_t" where
  "exact_double_div n u = word_of_int \<lfloor>real (unat n) / u\<rfloor>"

definition exact_double_mul_seconds :: "uint64_t \<Rightarrow> uint64_t \<Rightarrow> size_t" where
  "exact_double_mul_seconds r ms = word_of_int \<lfloor>real (unat r) * (real (unat ms) / 1000)\<rfloor>"

subsection \<open>Constants and small helpers\<close>

definition KB :: size_t where
  "KB = 1024"

definition kMinConcurrentRemainingBytes :: size_t where
  "kMinConcurrentRemainingBytes = 128 * KB"

definition kMaxConcurrentRemainingBytes :: size_t where
  "kMaxConcurrentRemainingBytes = 512 * KB"

definition size_t_max :: size_t where
  "size_t_max = - 1"

text \<open>\<^verbatim>\<open>NsToMs\<close> of utils.h: nanoseconds to whole milliseconds.\<close>

definition NsToMs :: "uint64_t \<Rightarrow> uint64_t" where
  "NsToMs ns = ns div 1000 div 1000"

text \<open>The accessors of heap.h that heap.cc calls.\<close>

definition GetBytesAllocated :: "heap \<Rightarrow> size_t" where
  "GetBytesAllocated h = num_bytes_allocated h"

definition GetMaxMemory :: "heap \<Rightarrow> size_t" where
  "GetMaxMemory h = growth_limit h"

definition GetTargetHeapUtilization :: "heap \<Rightarrow> real" where
  "GetTargetHeapUtilization h = target_utilization h"


subsection \<open>Growth policy\<close>

definition SetIdealFootprint :: "size_t \<Rightarrow> heap \<Rightarrow> heap" where
  "SetIdealFootprint footprint h =
     h\<lparr>max_allowed_footprint :=
         (if footprint > GetMaxMemory h then GetMaxMemory h else footprint)\<rparr>"

text \<open>The local \<^verbatim>\<open>target_size\<close> of \<^verbatim>\<open>GrowForUtilization\<close>, as computed by the first
  \<^verbatim>\<open>if\<close> of the function.\<close>

definition GrowForUtilization_target_size :: "env \<Rightarrow> GcType \<Rightarrow> heap \<Rightarrow> size_t" where
  "GrowForUtilization_target_size env gc_type h =
     (let bytes_allocated = GetBytesAllocated h in
      if gc_type \<noteq> kGcTypeSticky then
        (let target_size = double_div env bytes_allocated (GetTargetHeapUtilization h) in
         if target_size > bytes_allocated + max_free h then bytes_allocated + max_free h
         else if target_size < bytes_allocated + min_free h then bytes_allocated + min_free h
         else target_size)
      else
        (if bytes_allocated + max_free h < max_allowed_footprint h
         then bytes_allocated + max_free h
         else max bytes_allocated (max_allowed_footprint h)))"

text \<open>The local \<^verbatim>\<open>remaining_bytes\<close> of the concurrent branch, after the clamping and the
  \<^verbatim>\<open>UNLIKELY\<close> guard; \<open>h\<close> is the state after \<^verbatim>\<open>SetIdealFootprint\<close>.\<close>

definition GrowForUtilization_remaining_bytes :: "env \<Rightarrow> uint64_t \<Rightarrow> heap \<Rightarrow> size_t" where
  "GrowForUtilization_remaining_bytes env gc_duration h =
     (let remaining_bytes = double_mul_seconds env (allocation_rate h) (NsToMs gc_duration);
          remaining_bytes = min remaining_bytes kMaxConcurrentRemainingBytes;
          remaining_bytes = max remaining_bytes kMinConcurrentRemainingBytes
      in if remaining_bytes > max_allowed_footprint h then kMinConcurrentRemainingBytes
         else remaining_bytes)"

text \<open>The first \<^verbatim>\<open>if\<close> of \<^verbatim>\<open>GrowForUtilization\<close>: the assignments besides \<^verbatim>\<open>target_size\<close>.\<close>

definition GrowForUtilization_next_gc :: "GcType \<Rightarrow> heap \<Rightarrow> heap" where
  "GrowForUtilization_next_gc gc_type h =
     (if gc_type \<noteq> kGcTypeSticky
      then h\<lparr>native_need_to_run_finalization := True, next_gc_type := kGcTypeSticky\<rparr>
      else if GetBytesAllocated h + min_free h \<le> max_allowed_footprint h
      then h\<lparr>next_gc_type := kGcTypeSticky\<rparr>
      else h\<lparr>next_gc_type := (if have_zygote_space h then kGcTypePartial else kGcTypeFull)\<rparr>)"

text \<open>The concurrent branch: when to perform the next concurrent GC. The subtraction is
  that of \<^verbatim>\<open>size_t\<close>: it wraps when \<open>remaining_bytes\<close> is above the footprint, which the
  guard above rules out only for a footprint of at least \<^verbatim>\<open>kMinConcurrentRemainingBytes\<close>
  (the \<^verbatim>\<open>DCHECK_LE(remaining_bytes, max_allowed_footprint_)\<close> of a debug build).\<close>

definition GrowForUtilization_concurrent :: "env \<Rightarrow> uint64_t \<Rightarrow> size_t \<Rightarrow> heap \<Rightarrow> heap" where
  "GrowForUtilization_concurrent env gc_duration bytes_allocated h =
     (let remaining_bytes = GrowForUtilization_remaining_bytes env gc_duration h in
      h\<lparr>concurrent_start_bytes :=
           max (max_allowed_footprint h - remaining_bytes) bytes_allocated\<rparr>)"

definition GrowForUtilization :: "env \<Rightarrow> GcType \<Rightarrow> uint64_t \<Rightarrow> heap \<Rightarrow> heap" where
  "GrowForUtilization env gc_type gc_duration h0 =
     (let bytes_allocated = GetBytesAllocated h0;
          target_size = GrowForUtilization_target_size env gc_type h0;
          h = h0\<lparr>last_gc_size := bytes_allocated, last_gc_time_ns := NanoTime h0\<rparr>;
          h = GrowForUtilization_next_gc gc_type h
      in if \<not> ignore_max_footprint h then
           (let h = SetIdealFootprint target_size h in
            if concurrent_gc h
            then GrowForUtilization_concurrent env gc_duration bytes_allocated h
            else h)
         else h)"

subsection \<open>Actions on the heap\<close>

text \<open>An action takes the heap and gives its result, the events it emitted and the
  heap it leaves; \<open>None\<close> when it never returns.\<close>

datatype 'a result = Fatal string | Ret 'a

type_synonym 'a action = "heap \<Rightarrow> ('a result \<times> event list \<times> heap) option"

definition ret :: "'a \<Rightarrow> 'a action" where
  "ret x = (\<lambda>h. Some (Ret x, [], h))"

definition fatal :: "string \<Rightarrow> 'a action" where
  "fatal msg = (\<lambda>h. Some (Fatal msg, [], h))"

definition emit :: "event \<Rightarrow> unit action" where
  "emit e = (\<lambda>h. Some (Ret (), [e], h))"

definition gets :: "(heap \<Rightarrow> 'a) \<Rightarrow> 'a action" where
  "gets f = (\<lambda>h. Some (Ret (f h), [], h))"

definition modify :: "(heap \<Rightarrow> heap) \<Rightarrow> unit action" where
  "modify f = (\<lambda>h. Some (Ret (), [], f h))"

definition bindM :: "'a action \<Rightarrow> ('a \<Rightarrow> 'b action) \<Rightarrow> 'b action" where
  "bindM m f = (\<lambda>h.
     case m h of
       None \<Rightarrow> None
     | Some (Fatal msg, es, h1) \<Rightarrow> Some (Fatal msg, es, h1)
     | Some (Ret x, es, h1) \<Rightarrow>
         (case f x h1 of None \<Rightarrow> None | Some (r, es', h2) \<Rightarrow> Some (r, es @ es', h2)))"

definition thenM :: "unit action \<Rightarrow> 'b action \<Rightarrow> 'b action" where
  "thenM m n = bindM m (\<lambda>_. n)"

text \<open>\<^verbatim>\<open>CHECK(c) << msg\<close>.\<close>

definition CHECK :: "bool \<Rightarrow> string \<Rightarrow> unit action" where
  "CHECK c msg = (if c then ret () else fatal msg)"

subsection \<open>Waiting for, starting and finishing a GC\<close>

text \<open>The loop of \<^verbatim>\<open>WaitForGcToCompleteLocked\<close>: while a GC is running, sleep on the
  condition variable, then read \<^verbatim>\<open>last_gc_type_\<close>.\<close>

partial_function (option) WaitForGcToCompleteLocked_loop ::
  "env \<Rightarrow> GcType \<Rightarrow> heap \<Rightarrow> (GcType \<times> heap) option" where
  "WaitForGcToCompleteLocked_loop env last_gc h =
     (if is_gc_running h
      then WaitForGcToCompleteLocked_loop env (last_gc_type (CondWait env h)) (CondWait env h)
      else Some (last_gc, h))"

definition WaitForGcToCompleteLocked :: "env \<Rightarrow> GcType action" where
  "WaitForGcToCompleteLocked env = (\<lambda>h.
     case WaitForGcToCompleteLocked_loop env kGcTypeNone h of
       None \<Rightarrow> None
     | Some (last_gc, h1) \<Rightarrow>
         Some (Ret last_gc, [],
               h1\<lparr>total_wait_time := total_wait_time h1 + (NanoTime h1 - NanoTime h)\<rparr>))"


definition StartGC :: "env \<Rightarrow> bool \<Rightarrow> bool action" where
  "StartGC env is_compacting =
     bindM (WaitForGcToCompleteLocked env) (\<lambda>_.
     bindM (gets disable_moving_gc_count) (\<lambda>count.
     if is_compacting \<and> count \<noteq> 0
     then thenM (emit (LogWarning ''Skipping GC due to disable moving GC count''))
                (ret False)
     else thenM (modify (\<lambda>h. h\<lparr>is_gc_running := True\<rparr>)) (ret True)))"

definition FinishGC :: "GcType \<Rightarrow> unit action" where
  "FinishGC gc_type = modify (\<lambda>h. h\<lparr>is_gc_running := False, last_gc_type := gc_type\<rparr>)"

definition EnqueueClearedReferences :: "env \<Rightarrow> unit action" where
  "EnqueueClearedReferences env =
     bindM (gets cleared_references) (\<lambda>cleared.
     if cleared \<noteq> [] then
       thenM (if IsStarted env then emit (ReferenceQueueAdd cleared) else ret ())
             (modify (\<lambda>h. h\<lparr>cleared_references := []\<rparr>))
     else ret ())"

subsection \<open>Changing the collector\<close>

definition ChangeAllocator :: "AllocatorType \<Rightarrow> unit action" where
  "ChangeAllocator allocator =
     bindM (gets current_allocator) (\<lambda>cur.
     if cur \<noteq> allocator then
       thenM (modify (\<lambda>h. h\<lparr>current_allocator := allocator\<rparr>))
             (emit (SetQuickAllocEntryPointsAllocator allocator))
     else ret ())"

text \<open>The \<^verbatim>\<open>switch\<close> of \<^verbatim>\<open>ChangeCollector\<close>, after \<^verbatim>\<open>collector_type_\<close> is set and the
  plan cleared.\<close>

definition ChangeCollector_switch :: "env \<Rightarrow> CollectorType \<Rightarrow> unit action" where
  "ChangeCollector_switch env c =
     (case c of
        kCollectorTypeSS \<Rightarrow>
          thenM (modify (\<lambda>h. h\<lparr>concurrent_gc := False, gc_plan := [kGcTypeFull]\<rparr>))
          (bindM (gets use_tlab) (\<lambda>tlab.
             ChangeAllocator (if tlab then kAllocatorTypeTLAB else kAllocatorTypeBumpPointer)))
      | kCollectorTypeGSS \<Rightarrow>
          thenM (modify (\<lambda>h. h\<lparr>concurrent_gc := False, gc_plan := [kGcTypeFull]\<rparr>))
          (bindM (gets use_tlab) (\<lambda>tlab.
             ChangeAllocator (if tlab then kAllocatorTypeTLAB else kAllocatorTypeBumpPointer)))
      | kCollectorTypeMS \<Rightarrow>
          thenM (modify (\<lambda>h. h\<lparr>concurrent_gc := False,
                                  gc_plan := [kGcTypeSticky, kGcTypePartial, kGcTypeFull]\<rparr>))
          (ChangeAllocator
             (if kUseRosAlloc env then kAllocatorTypeRosAlloc else kAllocatorTypeDlMalloc))
      | kCollectorTypeCMS \<Rightarrow>
          thenM (modify (\<lambda>h. h\<lparr>concurrent_gc := True,
                                  gc_plan := [kGcTypeSticky, kGcTypePartial, kGcTypeFull]\<rparr>))
          (ChangeAllocator
             (if kUseRosAlloc env then kAllocatorTypeRosAlloc else kAllocatorTypeDlMalloc))
      | kCollectorTypeNone \<Rightarrow> fatal ''Unimplemented'')"

definition ChangeCollector :: "env \<Rightarrow> CollectorType \<Rightarrow> unit action" where
  "ChangeCollector env c =
     bindM (gets collector_type) (\<lambda>cur.
     if c \<noteq> cur then
       thenM (modify (\<lambda>h. h\<lparr>collector_type := c, gc_plan := []\<rparr>))
      (thenM (ChangeCollector_switch env c)
             (modify (\<lambda>h. h\<lparr>concurrent_start_bytes :=
                (if concurrent_gc h
                 then max (max_allowed_footprint h) kMinConcurrentRemainingBytes
                        - kMinConcurrentRemainingBytes
                 else size_t_max)\<rparr>)))
     else ret ())"

subsection \<open>Running a collection\<close>

text \<open>The allocation-rate estimate at the start of a collection.\<close>

definition CollectGarbageInternal_allocation_rate :: "heap \<Rightarrow> heap" where
  "CollectGarbageInternal_allocation_rate h =
     (let gc_start_time_ns = NanoTime h;
          gc_start_size = (ucast (GetBytesAllocated h) :: uint64_t);
          ms_delta = NsToMs (gc_start_time_ns - last_gc_time_ns h)
      in if ms_delta \<noteq> 0
         then h\<lparr>allocation_rate :=
                  ((gc_start_size - ucast (last_gc_size h)) * 1000) div ms_delta\<rparr>
         else h)"

text \<open>The choice of the collector and of the GC type it is run as. A null
  \<^verbatim>\<open>semi_space_collector_\<close> or \<^verbatim>\<open>temp_space_\<close> is dereferenced: the process ends.\<close>

definition CollectGarbageInternal_collector ::
  "env \<Rightarrow> bool \<Rightarrow> GcType \<Rightarrow> (collector \<times> GcType) action" where
  "CollectGarbageInternal_collector env compacting_gc gc_type =
     (if compacting_gc then
        bindM (gets semi_space_collector) (\<lambda>ss. case ss of
          None \<Rightarrow> fatal ''null semi_space_collector_''
        | Some c \<Rightarrow>
            bindM (gets temp_space) (\<lambda>t. case t of
              None \<Rightarrow> fatal ''null temp_space_''
            | Some tmp \<Rightarrow>
                bindM (gets (TempSpaceIsEmpty env)) (\<lambda>empty.
                thenM (CHECK empty ''temp_space_->IsEmpty()'')
               (bindM (gets bump_pointer_space) (\<lambda>bump.
                thenM (emit (SetFromSpace bump))
               (thenM (emit (SetToSpace (Some tmp)))
               (thenM (emit (Mprotect tmp))
                      (ret (c, kGcTypeFull)))))))))
      else
        bindM (gets current_allocator) (\<lambda>cur.
        if cur = kAllocatorTypeRosAlloc \<or> cur = kAllocatorTypeDlMalloc then
          bindM (gets (\<lambda>h. find (\<lambda>c. IsConcurrent c = concurrent_gc h \<and> GetGcType c = gc_type)
                               (garbage_collectors h))) (\<lambda>found. case found of
            None \<Rightarrow> fatal ''Could not find garbage collector''
          | Some c \<Rightarrow> ret (c, gc_type))
        else fatal ''Invalid current allocator''))"

text \<open>\<^verbatim>\<open>collector->Run(gc_cause, clear_soft_references)\<close> and the two totals.\<close>

definition RunCollector :: "env \<Rightarrow> collector \<Rightarrow> GcCause \<Rightarrow> bool \<Rightarrow> gc_stats action" where
  "RunCollector env c gc_cause clear_soft = (\<lambda>h.
     case CollectorRun env c gc_cause clear_soft h of
       (stats, h1) \<Rightarrow> Some (Ret stats, [Run c gc_cause clear_soft], h1))"

definition CollectGarbageInternal :: "env \<Rightarrow> GcType \<Rightarrow> GcCause \<Rightarrow> bool \<Rightarrow> GcType action" where
  "CollectGarbageInternal env gc_type gc_cause clear_soft_references =
     bindM (gets have_zygote_space) (\<lambda>have_zygote.
     if gc_type = kGcTypePartial \<and> \<not> have_zygote then ret kGcTypeNone
     else
       thenM (if IsHandlingStackOverflow env
              then emit (LogWarning
                     ''Performing GC on a thread that is handling a stack overflow.'')
              else ret ())
      (bindM (gets (\<lambda>h. IsCompactingGC env (collector_type h))) (\<lambda>compacting_gc.
       bindM (StartGC env compacting_gc) (\<lambda>started.
       if \<not> started then ret kGcTypeNone
       else
         thenM (modify CollectGarbageInternal_allocation_rate)
        (bindM (CollectGarbageInternal_collector env compacting_gc gc_type) (\<lambda>(c, gc_type).
         bindM (RunCollector env c gc_cause clear_soft_references) (\<lambda>stats.
         thenM (modify (\<lambda>h. h\<lparr>
                  total_objects_freed_ever := total_objects_freed_ever h + GetFreedObjects stats,
                  total_bytes_freed_ever := total_bytes_freed_ever h + GetFreedBytes stats\<rparr>))
        (thenM (EnqueueClearedReferences env)
        (thenM (modify (GrowForUtilization env gc_type (GetDurationNs stats)))
        (thenM (FinishGC gc_type)
        (thenM (emit GcDidFinish)
               (ret gc_type))))))))))))"

subsection \<open>Collector transition and process state\<close>

definition Compact :: "env \<Rightarrow> space option \<Rightarrow> space option \<Rightarrow> unit action" where
  "Compact env target_space source_space =
     thenM (CHECK (kMovingCollector env) ''kMovingCollector'')
    (thenM (CHECK (target_space \<noteq> source_space) ''In-place compaction currently unsupported'')
    (bindM (gets semi_space_collector) (\<lambda>ss. case ss of
        None \<Rightarrow> fatal ''null semi_space_collector_''
      | Some c \<Rightarrow>
          thenM (emit (SetFromSpace source_space))
         (thenM (emit (SetToSpace target_space))
         (bindM (RunCollector env c kGcCauseCollectorTransition False) (\<lambda>_. ret ()))))))"

text \<open>\<^verbatim>\<open>while (!StartGC(self, copying_transition)) usleep(100);\<close>\<close>

partial_function (option) TransitionCollector_StartGC ::
  "env \<Rightarrow> bool \<Rightarrow> heap \<Rightarrow> (unit result \<times> event list \<times> heap) option" where
  "TransitionCollector_StartGC env copying_transition h =
     Option.bind (StartGC env copying_transition h) (\<lambda>(r, es, h1).
       if r = Ret False then
         Option.bind (TransitionCollector_StartGC env copying_transition (usleep env h1))
           (\<lambda>(r', es', h2). Some (r', es @ es', h2))
       else Some (map_result (\<lambda>_. ()) r, es, h1))"

text \<open>The \<^verbatim>\<open>switch\<close> of \<^verbatim>\<open>TransitionCollector\<close>, with all threads suspended. The space
  lists and bitmaps that \<^verbatim>\<open>AddSpace\<close> and \<^verbatim>\<open>RemoveSpace\<close> maintain are their events.\<close>

definition TransitionCollector_to_moving :: "env \<Rightarrow> unit action" where
  "TransitionCollector_to_moving env =
     bindM (gets temp_space) (\<lambda>t. case t of
       None \<Rightarrow> fatal ''null temp_space_''
     | Some tmp \<Rightarrow>
         thenM (emit (Mprotect tmp))
        (bindM (gets main_space) (\<lambda>m. case m of
           None \<Rightarrow> fatal ''main_space_ != nullptr''
         | Some main \<Rightarrow>
             thenM (Compact env (Some tmp) (Some main))
            (thenM (modify (\<lambda>h. h\<lparr>allocator_mem_map := Some main\<rparr>))
            (thenM (emit (Madvise main))
            (thenM (emit (RemoveSpace main))
                   (modify (\<lambda>h. h\<lparr>main_space := None\<rparr>))))))))"

definition TransitionCollector_to_non_moving :: "env \<Rightarrow> unit action" where
  "TransitionCollector_to_non_moving env =
     bindM (gets (\<lambda>h. IsCompactingGC env (collector_type h))) (\<lambda>compacting.
     if compacting then
       bindM (gets allocator_mem_map) (\<lambda>mm.
       thenM (modify (\<lambda>h. h\<lparr>allocator_mem_map := None\<rparr>))
       (case mm of
          None \<Rightarrow> fatal ''mem_map != nullptr''
        | Some mem_map \<Rightarrow>
            thenM (emit (Mprotect mem_map))
           (bindM (gets main_space) (\<lambda>m.
            thenM (CHECK (m = None) ''main_space_ == nullptr'')
           (thenM (modify (\<lambda>h. h\<lparr>main_space := Some mem_map\<rparr>))
           (thenM (emit (AddSpace mem_map))
           (bindM (gets bump_pointer_space) (\<lambda>bump.
              Compact env (Some mem_map) bump))))))))
     else ret ())"

definition TransitionCollector_switch :: "env \<Rightarrow> CollectorType \<Rightarrow> unit action" where
  "TransitionCollector_switch env c =
     (case c of
        kCollectorTypeSS \<Rightarrow> TransitionCollector_to_moving env
      | kCollectorTypeGSS \<Rightarrow> TransitionCollector_to_moving env
      | kCollectorTypeMS \<Rightarrow> TransitionCollector_to_non_moving env
      | kCollectorTypeCMS \<Rightarrow> TransitionCollector_to_non_moving env
      | kCollectorTypeNone \<Rightarrow> fatal ''Attempted to transition to invalid collector type'')"

definition TransitionCollector :: "env \<Rightarrow> CollectorType \<Rightarrow> unit action" where
  "TransitionCollector env c =
     bindM (gets collector_type) (\<lambda>cur.
     if c = cur then ret ()
     else
       bindM (gets NanoTime) (\<lambda>start_time.
       bindM (gets (\<lambda>h. IsCompactingGC env (background_collector_type h)
                        \<or> IsCompactingGC env (post_zygote_collector_type h)))
         (\<lambda>copying_transition.
       thenM (TransitionCollector_StartGC env copying_transition)
      (thenM (emit SuspendAll)
      (thenM (TransitionCollector_switch env c)
      (thenM (ChangeCollector env c)
      (thenM (emit ResumeAll)
      (thenM (EnqueueClearedReferences env)
      (bindM (gets NanoTime) (\<lambda>now.
       thenM (modify (GrowForUtilization env kGcTypeFull (now - start_time)))
             (FinishGC kGcTypeFull)))))))))))"

definition UpdateProcessState :: "env \<Rightarrow> ProcessState \<Rightarrow> unit action" where
  "UpdateProcessState env new_state =
     bindM (gets process_state) (\<lambda>cur.
     if cur \<noteq> new_state then
       thenM (modify (\<lambda>h. h\<lparr>process_state := new_state\<rparr>))
       (if new_state = kProcessStateJankPerceptible
        then bindM (gets post_zygote_collector_type) (TransitionCollector env)
        else bindM (gets background_collector_type) (TransitionCollector env))
     else
       bindM (CollectGarbageInternal env kGcTypeFull kGcCauseBackground False)
         (\<lambda>_. ret ()))"

subsection \<open>The allocation slow path\<close>

text \<open>A call of \<^verbatim>\<open>TryToAllocate<true, grow>\<close> as an action.\<close>

definition CallTryToAllocate ::
  "env \<Rightarrow> bool \<Rightarrow> AllocatorType \<Rightarrow> size_t \<Rightarrow> obj option action" where
  "CallTryToAllocate env grow allocator alloc_size = (\<lambda>h.
     case TryToAllocate env grow allocator alloc_size h of
       (ptr, h1) \<Rightarrow> Some (Ret ptr, [], h1))"







subsection \<open>Native accounting\<close>

text \<open>\<^verbatim>\<open>RegisterNativeFree\<close>: one pass of the compare-and-swap loop. With no other thread
  writing the counter between the load and the swap, the swap succeeds; \<^verbatim>\<open>int\<close>
  subtraction is two's complement.\<close>

definition RegisterNativeFree :: "32 word \<Rightarrow> unit action" where
  "RegisterNativeFree bytes =
     bindM (gets native_bytes_allocated) (\<lambda>expected_size.
     let new_size = expected_size - bytes in
     if sint new_size < 0 then emit ThrowRuntimeException
     else modify (\<lambda>h. h\<lparr>native_bytes_allocated := new_size\<rparr>))"

subsection \<open>A concrete heap and environment\<close>

text \<open>A non-moving heap as the constructor leaves it for the mark-sweep collector (no
  zygote space yet, 2 MiB of initial footprint, 64 MiB growth limit, utilization 0.5),
  and an environment in which no other thread interferes, every allocation attempt
  fails, a collection frees nothing and double arithmetic is exact. The examples
  below vary single fields of them.\<close>

definition heap0 :: heap where
  "heap0 = \<lparr>main_space = Some 1, concurrent_gc = False, collector_type = kCollectorTypeMS,
     post_zygote_collector_type = kCollectorTypeMS,
     background_collector_type = kCollectorTypeMS,
     ignore_max_footprint = False, have_zygote_space = False, cleared_references = [],
     is_gc_running = False, last_gc_type = kGcTypeNone, next_gc_type = kGcTypePartial,
     growth_limit = 67108864, max_allowed_footprint = 2097152,
     native_need_to_run_finalization = False, process_state = kProcessStateJankPerceptible,
     concurrent_start_bytes = size_t_max, total_bytes_freed_ever = 0,
     total_objects_freed_ever = 0, num_bytes_allocated = 0, native_bytes_allocated = 0,
     last_gc_size = 0, last_gc_time_ns = 0, allocation_rate = 0,
     current_allocator = kAllocatorTypeDlMalloc, bump_pointer_space = Some 2,
     temp_space = Some 3, min_free = 524288, max_free = 2097152, target_utilization = 1 / 2,
     total_wait_time = 0, disable_moving_gc_count = 0,
     gc_plan = [kGcTypeSticky, kGcTypePartial, kGcTypeFull],
     garbage_collectors =
       [\<lparr>GetName = ''mark sweep'', IsConcurrent = False, GetGcType = kGcTypeFull\<rparr>,
        \<lparr>GetName = ''partial mark sweep'', IsConcurrent = False, GetGcType = kGcTypePartial\<rparr>,
        \<lparr>GetName = ''sticky mark sweep'', IsConcurrent = False, GetGcType = kGcTypeSticky\<rparr>,
        \<lparr>GetName = ''concurrent mark sweep'', IsConcurrent = True, GetGcType = kGcTypeFull\<rparr>,
        \<lparr>GetName = ''concurrent partial mark sweep'', IsConcurrent = True,
          GetGcType = kGcTypePartial\<rparr>,
        \<lparr>GetName = ''concurrent sticky mark sweep'', IsConcurrent = True,
          GetGcType = kGcTypeSticky\<rparr>,
        \<lparr>GetName = ''semispace'', IsConcurrent = False, GetGcType = kGcTypePartial\<rparr>],
     semi_space_collector =
       Some \<lparr>GetName = ''semispace'', IsConcurrent = False, GetGcType = kGcTypePartial\<rparr>,
     allocator_mem_map = None, use_tlab = False, NanoTime = 0\<rparr>"

definition env0 :: env where
  "env0 = \<lparr>kUseRosAlloc = False, kMovingCollector = True,
     IsCompactingGC = (\<lambda>c. c = kCollectorTypeSS \<or> c = kCollectorTypeGSS),
     IsStarted = True, IsZygote = False, IsHandlingStackOverflow = False,
     CondWait = (\<lambda>h. h), usleep = (\<lambda>h. h),
     CollectorRun = (\<lambda>c cause clear_soft h.
       (\<lparr>GetFreedObjects = 0, GetFreedBytes = 0, GetDurationNs = 0\<rparr>, h)),
     TempSpaceIsEmpty = (\<lambda>h. True),
     TryToAllocate = (\<lambda>grow allocator alloc_size h. (None, h)),
     double_div = exact_double_div, double_mul_seconds = exact_double_mul_seconds\<rparr>"

text \<open>A second pair: the process has gone to the background, the background collector
  is the semi-space collector, one thread has moving GC disabled, and that thread
  re-enables it while the transition sleeps.\<close>

definition heap1 :: heap where
  "heap1 = heap0\<lparr>background_collector_type := kCollectorTypeSS,
                  disable_moving_gc_count := 1,
                  process_state := kProcessStateJankImperceptible\<rparr>"

definition env1 :: env where
  "env1 = env0\<lparr>usleep :=
     (\<lambda>h. h\<lparr>disable_moving_gc_count := disable_moving_gc_count h - 1\<rparr>)\<rparr>"

subsection \<open>Notions used to state the properties\<close>

text \<open>An action all of whose events satisfy \<open>P\<close>.\<close>

definition emits :: "(event \<Rightarrow> bool) \<Rightarrow> 'a action \<Rightarrow> bool" where
  "emits P m \<longleftrightarrow> (\<forall>h r es h'. m h = Some (r, es, h') \<longrightarrow> (\<forall>e \<in> set es. P e))"

text \<open>The runs of a collector among the events.\<close>

fun is_Run :: "event \<Rightarrow> bool" where
  "is_Run (Run c cause clear_soft) = True"
| "is_Run e = False"

text \<open>An event of a collection made with the given cause and soft-reference flag: if it
  is the run of a collector, the collector was run with that cause and flag; and it is
  not the \<^verbatim>\<open>OutOfMemoryError\<close>.\<close>

fun gc_event :: "GcCause \<Rightarrow> bool \<Rightarrow> event \<Rightarrow> bool" where
  "gc_event cause clear_soft (Run c cause' clear_soft') \<longleftrightarrow> cause' = cause \<and> clear_soft' = clear_soft"
| "gc_event cause clear_soft (ThrowOutOfMemoryError n) \<longleftrightarrow> False"
| "gc_event cause clear_soft e \<longleftrightarrow> True"


text \<open>The heap when a collection that ran is over: the totals, the cleared-references
  list handed over, the growth policy, \<^verbatim>\<open>FinishGC\<close>.\<close>

definition CollectGarbageInternal_finish :: "env \<Rightarrow> GcType \<Rightarrow> gc_stats \<Rightarrow> heap \<Rightarrow> heap" where
  "CollectGarbageInternal_finish env gc_type stats h =
     (GrowForUtilization env gc_type (GetDurationNs stats)
        (h\<lparr>total_objects_freed_ever := total_objects_freed_ever h + GetFreedObjects stats,
           total_bytes_freed_ever := total_bytes_freed_ever h + GetFreedBytes stats,
           cleared_references := []\<rparr>))
     \<lparr>is_gc_running := False, last_gc_type := gc_type\<rparr>"

subsection \<open>Reference objects\<close>

text \<open>The fields of a \<^verbatim>\<open>java.lang.ref.Reference\<close> are read through offsets that the class
  linker hands to the heap (\<^verbatim>\<open>SetReferenceOffsets\<close>). The object memory is a function
  from an object and an offset to the pointer stored there; the null pointer is 0.\<close>

type_synonym MemberOffset = "32 word"

type_synonym memory = "obj \<Rightarrow> MemberOffset \<Rightarrow> obj"

record reference_offsets =
  reference_referent_offset :: MemberOffset
  reference_queue_offset :: MemberOffset
  reference_queueNext_offset :: MemberOffset
  reference_pendingNext_offset :: MemberOffset
  finalizer_reference_zombie_offset :: MemberOffset

definition GetFieldObject :: "memory \<Rightarrow> obj \<Rightarrow> MemberOffset \<Rightarrow> obj" where
  "GetFieldObject mem ref off = mem ref off"

definition SetFieldObject :: "obj \<Rightarrow> MemberOffset \<Rightarrow> obj \<Rightarrow> memory \<Rightarrow> memory" where
  "SetFieldObject ref off v mem = mem(ref := (mem ref)(off := v))"

definition GetReferenceReferent :: "reference_offsets \<Rightarrow> memory \<Rightarrow> obj \<Rightarrow> obj" where
  "GetReferenceReferent offs mem reference =
     GetFieldObject mem reference (reference_referent_offset offs)"

definition SetReferenceReferent :: "reference_offsets \<Rightarrow> obj \<Rightarrow> obj \<Rightarrow> memory \<Rightarrow> memory" where
  "SetReferenceReferent offs reference referent mem =
     SetFieldObject reference (reference_referent_offset offs) referent mem"

definition IsEnqueued :: "reference_offsets \<Rightarrow> memory \<Rightarrow> obj \<Rightarrow> bool" where
  "IsEnqueued offs mem ref \<longleftrightarrow>
     GetFieldObject mem ref (reference_pendingNext_offset offs) \<noteq> 0"

text \<open>\<open>IsEnqueuable\<close> starts with \<^verbatim>\<open>DCHECK(ref != nullptr)\<close>, which aborts in a debug
  build.\<close>

definition IsEnqueuable :: "bool \<Rightarrow> reference_offsets \<Rightarrow> memory \<Rightarrow> obj \<Rightarrow> bool result" where
  "IsEnqueuable kIsDebugBuild offs mem ref =
     (if kIsDebugBuild \<and> ref = 0 then Fatal ''Check failed: ref != nullptr''
      else
        let queue = GetFieldObject mem ref (reference_queue_offset offs);
            queue_next = GetFieldObject mem ref (reference_queueNext_offset offs)
        in Ret (queue \<noteq> 0 \<and> queue_next = 0))"

text \<open>The offsets of the concrete runs below.\<close>

definition offsets0 :: reference_offsets where
  "offsets0 = \<lparr>reference_referent_offset = 8, reference_queue_offset = 12,
     reference_queueNext_offset = 16, reference_pendingNext_offset = 20,
     finalizer_reference_zombie_offset = 24\<rparr>"

subsection \<open>Reference queues\<close>

text \<open>The state that reference processing works on: the offsets, the object memory, the
  four queues of references whose referent was found unmarked, the list of cleared
  references, and what the \<^verbatim>\<open>arg\<close> pointer of the callbacks points to (the collector with
  its mark state).\<close>

record 'a reference_processing =
  offsets :: reference_offsets
  object_memory :: memory
  soft_reference_queue :: "obj list"
  weak_reference_queue :: "obj list"
  finalizer_reference_queue :: "obj list"
  phantom_reference_queue :: "obj list"
  cleared_reference_list :: "obj list"
  arg :: 'a

datatype ReferenceQueue = SoftQueue | WeakQueue | FinalizerQueue | PhantomQueue | ClearedList

fun get_queue :: "ReferenceQueue \<Rightarrow> 'a reference_processing \<Rightarrow> obj list" where
  "get_queue SoftQueue h = soft_reference_queue h"
| "get_queue WeakQueue h = weak_reference_queue h"
| "get_queue FinalizerQueue h = finalizer_reference_queue h"
| "get_queue PhantomQueue h = phantom_reference_queue h"
| "get_queue ClearedList h = cleared_reference_list h"

fun set_queue :: "ReferenceQueue \<Rightarrow> obj list \<Rightarrow> 'a reference_processing \<Rightarrow> 'a reference_processing" where
  "set_queue SoftQueue q h = h\<lparr>soft_reference_queue := q\<rparr>"
| "set_queue WeakQueue q h = h\<lparr>weak_reference_queue := q\<rparr>"
| "set_queue FinalizerQueue q h = h\<lparr>finalizer_reference_queue := q\<rparr>"
| "set_queue PhantomQueue q h = h\<lparr>phantom_reference_queue := q\<rparr>"
| "set_queue ClearedList q h = h\<lparr>cleared_reference_list := q\<rparr>"

definition GetPendingNext :: "'a reference_processing \<Rightarrow> obj \<Rightarrow> obj" where
  "GetPendingNext h ref =
     GetFieldObject (object_memory h) ref (reference_pendingNext_offset (offsets h))"

definition SetPendingNext :: "obj \<Rightarrow> obj \<Rightarrow> 'a reference_processing \<Rightarrow> 'a reference_processing" where
  "SetPendingNext ref v h =
     h\<lparr>object_memory :=
         SetFieldObject ref (reference_pendingNext_offset (offsets h)) v (object_memory h)\<rparr>"

definition GetReferent :: "'a reference_processing \<Rightarrow> obj \<Rightarrow> obj" where
  "GetReferent h ref = GetReferenceReferent (offsets h) (object_memory h) ref"

definition ClearReferenceReferent :: "obj \<Rightarrow> 'a reference_processing \<Rightarrow> 'a reference_processing" where
  "ClearReferenceReferent ref h =
     h\<lparr>object_memory := SetReferenceReferent (offsets h) ref 0 (object_memory h)\<rparr>"

definition SetFinalizerReferenceZombie ::
    "obj \<Rightarrow> obj \<Rightarrow> 'a reference_processing \<Rightarrow> 'a reference_processing" where
  "SetFinalizerReferenceZombie ref zombie h =
     h\<lparr>object_memory :=
         SetFieldObject ref (finalizer_reference_zombie_offset (offsets h)) zombie
           (object_memory h)\<rparr>"

text \<open>Modelled from the spec: the operations of \<^verbatim>\<open>ReferenceQueue\<close> (reference_queue.cc is
  not in src): ``a singly-linked list threaded through the \<open>pendingNext\<close> field of
  reference objects'', with ``enqueued if and only if \<open>pendingNext\<close> is not null''. A
  queue is given by the list of its references, first the head. The \<open>pendingNext\<close> field
  of a reference on a queue holds the next reference of the queue, and the last one holds
  itself, so that the field of an enqueued reference is never null, which is what the
  comment in \<^verbatim>\<open>IsEnqueued\<close> says of the lists of the runtime. A reference is put in
  front of the queue, and taken from the front, when its field is set back to null.\<close>

definition IsEmpty :: "ReferenceQueue \<Rightarrow> 'a reference_processing \<Rightarrow> bool" where
  "IsEmpty q h \<longleftrightarrow> get_queue q h = []"

definition EnqueuePendingReference ::
    "ReferenceQueue \<Rightarrow> obj \<Rightarrow> 'a reference_processing \<Rightarrow> 'a reference_processing" where
  "EnqueuePendingReference q ref h =
     set_queue q (ref # get_queue q h)
       (SetPendingNext ref (if IsEmpty q h then ref else hd (get_queue q h)) h)"

definition DequeuePendingReference ::
    "ReferenceQueue \<Rightarrow> 'a reference_processing \<Rightarrow> obj \<times> 'a reference_processing" where
  "DequeuePendingReference q h =
     (let ref = hd (get_queue q h)
      in (ref, SetPendingNext ref 0 (set_queue q (tl (get_queue q h)) h)))"

definition EnqueueIfNotEnqueued ::
    "ReferenceQueue \<Rightarrow> obj \<Rightarrow> 'a reference_processing \<Rightarrow> 'a reference_processing" where
  "EnqueueIfNotEnqueued q ref h =
     (if IsEnqueued (offsets h) (object_memory h) ref then h
      else EnqueuePendingReference q ref h)"

text \<open>The two callbacks of a collector. \<open>is_marked_callback\<close> is a query: it returns the
  (possibly forwarded) address of a marked object and null for an unmarked one.
  \<open>recursive_mark_object_callback\<close> marks an object and everything reachable from it; on
  its way it meets reference objects and puts them on the queues
  (\<^verbatim>\<open>DelayReferenceReferent\<close>), so it may change the whole state.\<close>

type_synonym 'a IsMarkedCallback = "'a \<Rightarrow> obj \<Rightarrow> obj"

type_synonym 'a RootVisitor = "obj \<Rightarrow> 'a reference_processing \<Rightarrow> obj \<times> 'a reference_processing"

text \<open>\<^verbatim>\<open>DelayReferenceReferent\<close>, which a collector calls on each reference object that it
  scans. The class of the object is given by its kind.\<close>

datatype ReferenceClass = SoftReferenceClass | WeakReferenceClass | FinalizerReferenceClass
  | PhantomReferenceClass | InvalidReferenceClass

definition DelayReferenceReferent ::
    "bool \<Rightarrow> ReferenceClass \<Rightarrow> obj \<Rightarrow> 'a IsMarkedCallback \<Rightarrow> 'a reference_processing
      \<Rightarrow> 'a reference_processing result" where
  "DelayReferenceReferent kIsDebugBuild klass obj mark_visitor h =
     (let referent = GetReferent h obj in
      if kIsDebugBuild \<and> obj = 0 then Fatal ''Check failed: obj != nullptr''
      else if referent \<noteq> 0 then
        (let forward_address = mark_visitor (arg h) referent in
         if forward_address = 0 then
           (case klass of
              SoftReferenceClass \<Rightarrow> Ret (EnqueueIfNotEnqueued SoftQueue obj h)
            | WeakReferenceClass \<Rightarrow> Ret (EnqueueIfNotEnqueued WeakQueue obj h)
            | FinalizerReferenceClass \<Rightarrow> Ret (EnqueueIfNotEnqueued FinalizerQueue obj h)
            | PhantomReferenceClass \<Rightarrow> Ret (EnqueueIfNotEnqueued PhantomQueue obj h)
            | InvalidReferenceClass \<Rightarrow> Fatal ''Invalid reference type'')
         else if referent \<noteq> forward_address then
           Ret (h\<lparr>object_memory :=
                    SetReferenceReferent (offsets h) obj forward_address (object_memory h)\<rparr>)
         else Ret h)
      else Ret h)"

record 'a SoftReferenceArgs =
  args_is_marked_callback :: "'a IsMarkedCallback"
  args_recursive_mark_callback :: "'a RootVisitor"

definition PreserveSoftReferenceCallback :: "'a SoftReferenceArgs \<Rightarrow> 'a RootVisitor" where
  "PreserveSoftReferenceCallback args obj = args_recursive_mark_callback args obj"

text \<open>Modelled from the spec: \<^verbatim>\<open>PreserveSomeSoftReferences\<close> of reference_queue.cc, ``preserve
  some soft references by invoking a caller-supplied preserve callback on each referent;
  preserved referents are subsequently marked along with their transitive closure''. The
  references stay on the queue for the clearing that follows.\<close>

fun PreserveSomeSoftReferences_loop ::
    "'a RootVisitor \<Rightarrow> obj list \<Rightarrow> 'a reference_processing \<Rightarrow> 'a reference_processing" where
  "PreserveSomeSoftReferences_loop preserve_callback [] h = h"
| "PreserveSomeSoftReferences_loop preserve_callback (ref # refs) h =
     PreserveSomeSoftReferences_loop preserve_callback refs
       (let referent = GetReferent h ref in
        if referent \<noteq> 0 then snd (preserve_callback referent h) else h)"

definition PreserveSomeSoftReferences ::
    "ReferenceQueue \<Rightarrow> 'a RootVisitor \<Rightarrow> 'a reference_processing \<Rightarrow> 'a reference_processing" where
  "PreserveSomeSoftReferences q preserve_callback h =
     PreserveSomeSoftReferences_loop preserve_callback (get_queue q h) h"

text \<open>Modelled from the spec: \<^verbatim>\<open>ClearWhiteReferences\<close> of reference_queue.cc, ``clear
  references whose referents remain unmarked; enqueue the cleared references on the global
  cleared list''. The references are taken off the queue one by one until it is empty.\<close>

definition ClearWhiteReferences_step ::
    "'a IsMarkedCallback \<Rightarrow> obj \<Rightarrow> 'a reference_processing \<Rightarrow> 'a reference_processing" where
  "ClearWhiteReferences_step is_marked ref h =
     (let referent = GetReferent h ref in
      if referent \<noteq> 0 \<and> is_marked (arg h) referent = 0
      then EnqueuePendingReference ClearedList ref (ClearReferenceReferent ref h)
      else h)"

partial_function (option) ClearWhiteReferences ::
    "ReferenceQueue \<Rightarrow> 'a IsMarkedCallback \<Rightarrow> 'a reference_processing
      \<Rightarrow> 'a reference_processing option" where
  "ClearWhiteReferences q is_marked h =
     (if IsEmpty q h then Some h
      else case DequeuePendingReference q h of
             (ref, h1) \<Rightarrow> ClearWhiteReferences q is_marked (ClearWhiteReferences_step is_marked ref h1))"

text \<open>Modelled from the spec: \<^verbatim>\<open>EnqueueFinalizerReferences\<close> of reference_queue.cc, ``enqueue
  finalizer references whose referents are unmarked, and mark their referents plus their
  transitive closure (so the finalizer body can run)''. On the cleared list a reference
  has a null referent: the marked referent is kept in the zombie field. The marking may put
  further references on the queue, so the loop need not end.\<close>

definition EnqueueFinalizerReferences_step ::
    "'a IsMarkedCallback \<Rightarrow> 'a RootVisitor \<Rightarrow> obj \<Rightarrow> 'a reference_processing
      \<Rightarrow> 'a reference_processing" where
  "EnqueueFinalizerReferences_step is_marked recursive_mark ref h =
     (let referent = GetReferent h ref in
      if referent \<noteq> 0 \<and> is_marked (arg h) referent = 0
      then (case recursive_mark referent h of
              (forward_address, h1) \<Rightarrow>
                EnqueueIfNotEnqueued ClearedList ref
                  (ClearReferenceReferent ref
                    (SetFinalizerReferenceZombie ref forward_address h1)))
      else h)"

partial_function (option) EnqueueFinalizerReferences ::
    "ReferenceQueue \<Rightarrow> 'a IsMarkedCallback \<Rightarrow> 'a RootVisitor \<Rightarrow> 'a reference_processing
      \<Rightarrow> 'a reference_processing option" where
  "EnqueueFinalizerReferences q is_marked recursive_mark h =
     (if IsEmpty q h then Some h
      else case DequeuePendingReference q h of
             (ref, h1) \<Rightarrow>
               EnqueueFinalizerReferences q is_marked recursive_mark
                 (EnqueueFinalizerReferences_step is_marked recursive_mark ref h1))"

subsection \<open>Reference processing\<close>

datatype timing_event = StartSplit string | EndSplit

definition ProcessReferences_checks :: "bool \<Rightarrow> 'a reference_processing \<Rightarrow> unit result" where
  "ProcessReferences_checks kIsDebugBuild h =
     (if \<not> kIsDebugBuild then Ret ()
      else if \<not> IsEmpty SoftQueue h then Fatal ''Check failed: soft_reference_queue_.IsEmpty()''
      else if \<not> IsEmpty WeakQueue h then Fatal ''Check failed: weak_reference_queue_.IsEmpty()''
      else if \<not> IsEmpty FinalizerQueue h
        then Fatal ''Check failed: finalizer_reference_queue_.IsEmpty()''
      else if \<not> IsEmpty PhantomQueue h
        then Fatal ''Check failed: phantom_reference_queue_.IsEmpty()''
      else Ret ())"

text \<open>The first statement of \<^verbatim>\<open>ProcessReferences\<close>.\<close>

definition ProcessReferences_preserve ::
    "bool \<Rightarrow> bool \<Rightarrow> 'a IsMarkedCallback \<Rightarrow> 'a RootVisitor \<Rightarrow> 'a reference_processing
      \<Rightarrow> 'a reference_processing" where
  "ProcessReferences_preserve is_zygote clear_soft is_marked_callback
       recursive_mark_object_callback h =
     (if \<not> clear_soft \<and> \<not> is_zygote then
        let soft_reference_args = \<lparr>args_is_marked_callback = is_marked_callback,
              args_recursive_mark_callback = recursive_mark_object_callback\<rparr>
        in PreserveSomeSoftReferences SoftQueue
             (PreserveSoftReferenceCallback soft_reference_args) h
      else h)"

text \<open>\<^verbatim>\<open>ProcessReferences\<close>: \<open>None\<close> when a loop of a queue operation does not end. The splits
  of the timing logger are returned beside the result.\<close>

definition ProcessReferences ::
    "bool \<Rightarrow> bool \<Rightarrow> bool \<Rightarrow> 'a IsMarkedCallback \<Rightarrow> 'a RootVisitor \<Rightarrow> 'a reference_processing
      \<Rightarrow> (unit result \<times> timing_event list \<times> 'a reference_processing) option" where
  "ProcessReferences kIsDebugBuild is_zygote clear_soft is_marked_callback
       recursive_mark_object_callback h =
     Option.bind (Some (ProcessReferences_preserve is_zygote clear_soft is_marked_callback
                    recursive_mark_object_callback h)) (\<lambda>h.
     Option.bind (ClearWhiteReferences SoftQueue is_marked_callback h) (\<lambda>h.
     Option.bind (ClearWhiteReferences WeakQueue is_marked_callback h) (\<lambda>h.
     Option.bind (EnqueueFinalizerReferences FinalizerQueue is_marked_callback
                    recursive_mark_object_callback h) (\<lambda>h.
     Option.bind (ClearWhiteReferences SoftQueue is_marked_callback h) (\<lambda>h.
     Option.bind (ClearWhiteReferences WeakQueue is_marked_callback h) (\<lambda>h.
     Option.bind (ClearWhiteReferences PhantomQueue is_marked_callback h) (\<lambda>h.
       let splits = [StartSplit ''ProcessReferences'', EndSplit,
                     StartSplit ''EnqueueFinalizerReferences'', EndSplit,
                     StartSplit ''ProcessReferences'']
       in case ProcessReferences_checks kIsDebugBuild h of
            Fatal msg \<Rightarrow> Some (Fatal msg, splits, h)
          | Ret u \<Rightarrow> Some (Ret (), splits @ [EndSplit], h))))))))"

text \<open>What holds of the queues between any two operations on them: no reference is on two
  queues or twice on one, none is null, the \<open>pendingNext\<close> fields link each queue as
  described above and are null for the references that are on no queue, and a reference on
  the cleared list has a null referent. The three fields that reference processing writes
  are different fields.\<close>

fun linked :: "(obj \<Rightarrow> obj) \<Rightarrow> obj list \<Rightarrow> bool" where
  "linked pn [] \<longleftrightarrow> True"
| "linked pn [x] \<longleftrightarrow> pn x = x"
| "linked pn (x # y # xs) \<longleftrightarrow> pn x = y \<and> linked pn (y # xs)"

definition enqueued :: "'a reference_processing \<Rightarrow> obj list" where
  "enqueued h = soft_reference_queue h @ weak_reference_queue h @ finalizer_reference_queue h
     @ phantom_reference_queue h @ cleared_reference_list h"

definition queue_invariant :: "'a reference_processing \<Rightarrow> bool" where
  "queue_invariant h \<longleftrightarrow>
     reference_referent_offset (offsets h) \<noteq> reference_pendingNext_offset (offsets h)
   \<and> finalizer_reference_zombie_offset (offsets h) \<noteq> reference_pendingNext_offset (offsets h)
   \<and> finalizer_reference_zombie_offset (offsets h) \<noteq> reference_referent_offset (offsets h)
   \<and> distinct (enqueued h) \<and> 0 \<notin> set (enqueued h)
   \<and> (\<forall>q. linked (GetPendingNext h) (get_queue q h))
   \<and> (\<forall>ref. GetPendingNext h ref \<noteq> 0 \<longleftrightarrow> ref \<in> set (enqueued h))
   \<and> (\<forall>ref \<in> set (cleared_reference_list h). GetReferent h ref = 0)"

text \<open>A marking callback that keeps the queues in order, as one does that touches them
  through \<^verbatim>\<open>DelayReferenceReferent\<close> only.\<close>

definition keeps_queue_invariant :: "'a RootVisitor \<Rightarrow> bool" where
  "keeps_queue_invariant callback \<longleftrightarrow>
     (\<forall>obj h. queue_invariant h \<longrightarrow> queue_invariant (snd (callback obj h)))"

subsection \<open>A concrete reference state\<close>

text \<open>A collector whose mark state is the list of the marked objects: an object is marked
  when it is in the list, and marking puts it there. Marking the object \<open>0x220\<close> scans the
  weak reference \<open>0x140\<close>, whose referent \<open>0x240\<close> is not marked, so that
  \<^verbatim>\<open>DelayReferenceReferent\<close> puts it on the weak queue. In the state \<open>references0\<close> each of
  the four queues holds one reference; only the referent \<open>0x210\<close> of the weak reference
  \<open>0x110\<close> is marked, and only that reference was created with a queue (\<open>0x900\<close>).\<close>

definition is_marked0 :: "obj list IsMarkedCallback" where
  "is_marked0 marked obj = (if obj \<in> set marked then obj else 0)"

definition recursive_mark0 :: "obj list RootVisitor" where
  "recursive_mark0 obj h =
     (let h1 = h\<lparr>arg := obj # arg h\<rparr>
      in (obj,
          if obj = 0x220
          then (case DelayReferenceReferent True WeakReferenceClass 0x140 is_marked0 h1 of
                  Ret h2 \<Rightarrow> h2
                | Fatal msg \<Rightarrow> h1)
          else h1))"

definition memory1 :: memory where
  "memory1 = (\<lambda>ref off.
     if off = 8 then
       (if ref = 0x100 then 0x200 else if ref = 0x110 then 0x210 else if ref = 0x120 then 0x220
        else if ref = 0x130 then 0x230 else if ref = 0x140 then 0x240 else 0)
     else if off = 12 then (if ref = 0x110 then 0x900 else 0)
     else if off = 20 then
       (if ref = 0x100 \<or> ref = 0x110 \<or> ref = 0x120 \<or> ref = 0x130 then ref else 0)
     else 0)"

definition references0 :: "obj list reference_processing" where
  "references0 = \<lparr>offsets = offsets0, object_memory = memory1,
     soft_reference_queue = [0x100], weak_reference_queue = [0x110],
     finalizer_reference_queue = [0x120], phantom_reference_queue = [0x130],
     cleared_reference_list = [], arg = [0x210]\<rparr>"

subsection \<open>The zygote compacting collector\<close>

type_synonym uintptr_t = "32 word"

text \<open>Modelled from the spec: \<^verbatim>\<open>kObjectAlignment\<close> of globals.h and \<^verbatim>\<open>RoundUp\<close> of utils.h,
  which are not in src: ``alignment is 8 bytes''; \<open>RoundUp x n\<close> is the next multiple of the
  power of two \<open>n\<close>.\<close>

definition kObjectAlignment :: size_t where
  "kObjectAlignment = 8"

definition RoundUp :: "size_t \<Rightarrow> size_t \<Rightarrow> size_t" where
  "RoundUp x n = (x + n - 1) AND NOT (n - 1)"

text \<open>Modelled from the spec: \<^verbatim>\<open>accounting::SpaceBitmap\<close> (space_bitmap.h is not in src), ``a
  bit per 8-byte slot; Set, Clear, Test, Walk (ascending address order)''. A bitmap is the
  ascending list of the addresses whose bit is set. The collector and the spaces hold
  pointers to bitmaps, so the bitmaps live in a store.\<close>

type_synonym SpaceBitmap = "uintptr_t list"

type_synonym bitmap_ptr = nat

fun SpaceBitmap_Set :: "uintptr_t \<Rightarrow> SpaceBitmap \<Rightarrow> SpaceBitmap" where
  "SpaceBitmap_Set a [] = [a]"
| "SpaceBitmap_Set a (b # bs) =
     (if a < b then a # b # bs else if a = b then b # bs else b # SpaceBitmap_Set a bs)"

definition Walk :: "SpaceBitmap \<Rightarrow> (obj \<Rightarrow> 'c \<Rightarrow> 'c) \<Rightarrow> 'c \<Rightarrow> 'c" where
  "Walk bitmap callback context = fold callback bitmap context"

text \<open>\<^verbatim>\<open>std::multimap<size_t, uintptr_t>\<close>: the pairs in the order of iteration, that is by
  increasing key, pairs of one key in the order of insertion. An iterator is an index, and
  \<open>end()\<close> is the length. \<open>lower_bound k\<close> is the first pair whose key is not less than
  \<open>k\<close>.\<close>

type_synonym multimap = "(size_t \<times> uintptr_t) list"

fun multimap_insert :: "size_t \<times> uintptr_t \<Rightarrow> multimap \<Rightarrow> multimap" where
  "multimap_insert kv [] = [kv]"
| "multimap_insert kv (b # bs) =
     (if fst kv < fst b then kv # b # bs else b # multimap_insert kv bs)"

definition lower_bound :: "size_t \<Rightarrow> multimap \<Rightarrow> nat" where
  "lower_bound k m = length (takeWhile (\<lambda>b. fst b < k) m)"

definition multimap_erase :: "nat \<Rightarrow> multimap \<Rightarrow> multimap" where
  "multimap_erase it m = take it m @ drop (Suc it) m"

record ContinuousSpace =
  Begin :: uintptr_t
  End :: uintptr_t
  GetLiveBitmap :: bitmap_ptr
  GetMarkBitmap :: bitmap_ptr

text \<open>The collector with what it reaches: its bins, the two bitmaps of the space that
  holds the bins, the target space \<open>to_space\<close> (a bump pointer space, whose state is of
  type \<open>'t\<close>) with its live bitmap if it has one, the non-moving space of the heap, the
  store of bitmaps, and the copies made by \<^verbatim>\<open>memcpy\<close> (destination, source, length).\<close>

record 't ZygoteCompactingCollector =
  bins :: multimap
  bin_live_bitmap :: bitmap_ptr
  bin_mark_bitmap :: bitmap_ptr
  to_space :: 't
  to_space_live_bitmap :: "bitmap_ptr option"
  GetNonMovingSpace :: ContinuousSpace
  bitmaps :: "bitmap_ptr \<Rightarrow> SpaceBitmap"
  memcpy_log :: "(obj \<times> obj \<times> size_t) list"

record 't BinContext =
  prev :: uintptr_t
  collector :: "'t ZygoteCompactingCollector"

definition AddBin ::
    "size_t \<Rightarrow> uintptr_t \<Rightarrow> 't ZygoteCompactingCollector \<Rightarrow> 't ZygoteCompactingCollector" where
  "AddBin sz position c =
     (if sz \<noteq> 0 then c\<lparr>bins := multimap_insert (sz, position) (bins c)\<rparr> else c)"

definition Callback :: "(obj \<Rightarrow> size_t) \<Rightarrow> obj \<Rightarrow> 't BinContext \<Rightarrow> 't BinContext" where
  "Callback SizeOf obj context =
     (let object_addr = obj;
          bin_size = object_addr - prev context;
          c = AddBin bin_size (prev context) (collector context)
      in context\<lparr>prev := object_addr + RoundUp (SizeOf obj) kObjectAlignment,
                 collector := c\<rparr>)"

definition BuildBins ::
    "(obj \<Rightarrow> size_t) \<Rightarrow> ContinuousSpace \<Rightarrow> 't ZygoteCompactingCollector
      \<Rightarrow> 't ZygoteCompactingCollector" where
  "BuildBins SizeOf space c =
     (let c1 = c\<lparr>bin_live_bitmap := GetLiveBitmap space, bin_mark_bitmap := GetMarkBitmap space\<rparr>;
          context = \<lparr>prev = Begin space, collector = c1\<rparr>;
          context' = Walk (bitmaps c1 (bin_live_bitmap c1)) (Callback SizeOf) context
      in AddBin (End space - prev context') (prev context') (collector context'))"

definition SetBit :: "bitmap_ptr \<Rightarrow> obj \<Rightarrow> 't ZygoteCompactingCollector \<Rightarrow> 't ZygoteCompactingCollector" where
  "SetBit bitmap a c = c\<lparr>bitmaps := (bitmaps c)(bitmap := SpaceBitmap_Set a (bitmaps c bitmap))\<rparr>"

text \<open>\<open>Alloc\<close> is \<^verbatim>\<open>to_space_->Alloc\<close> of the bump pointer space, which is not in src: it
  returns the address and the new state of the space.\<close>

definition MarkNonForwardedObject ::
    "bool \<Rightarrow> (obj \<Rightarrow> size_t) \<Rightarrow> (size_t \<Rightarrow> 't \<Rightarrow> obj \<times> 't) \<Rightarrow> obj \<Rightarrow> 't ZygoteCompactingCollector
      \<Rightarrow> (obj \<times> 't ZygoteCompactingCollector) result" where
  "MarkNonForwardedObject kIsDebugBuild SizeOf Alloc obj c =
     (let object_size = RoundUp (SizeOf obj) kObjectAlignment;
          it = lower_bound object_size (bins c)
      in if it = length (bins c) then
           (case Alloc object_size (to_space c) of
              (forward_address, ts) \<Rightarrow>
                let c1 = c\<lparr>to_space := ts\<rparr>;
                    c2 = (case to_space_live_bitmap c1 of
                            Some b \<Rightarrow> SetBit b forward_address c1
                          | None \<Rightarrow>
                              SetBit (GetMarkBitmap (GetNonMovingSpace c1)) forward_address
                                (SetBit (GetLiveBitmap (GetNonMovingSpace c1)) forward_address c1))
                in Ret (forward_address,
                        c2\<lparr>memcpy_log := memcpy_log c2 @ [(forward_address, obj, object_size)]\<rparr>))
         else
           (let sz = fst (bins c ! it);
                pos = snd (bins c ! it);
                c1 = c\<lparr>bins := multimap_erase it (bins c)\<rparr>;
                forward_address = pos;
                c2 = SetBit (bin_mark_bitmap c1) forward_address
                       (SetBit (bin_live_bitmap c1) forward_address c1)
            in if kIsDebugBuild \<and> \<not> object_size \<le> sz
               then Fatal ''Check failed: size >= object_size''
               else
                 let c3 = AddBin (sz - object_size) (pos + object_size) c2
                 in Ret (forward_address,
                         c3\<lparr>memcpy_log := memcpy_log c3 @ [(forward_address, obj, object_size)]\<rparr>)))"

text \<open>The gaps that a space leaves free, as pairs of size and position, in address order:
  before the first object, between each object and the next, and after the last one.
  An object is given by its address and its aligned size.\<close>

fun gaps :: "uintptr_t \<Rightarrow> (uintptr_t \<times> size_t) list \<Rightarrow> uintptr_t \<Rightarrow> (size_t \<times> uintptr_t) list" where
  "gaps start [] limit = [(limit - start, start)]"
| "gaps start ((addr, sz) # objs) limit = (addr - start, start) # gaps (addr + sz) objs limit"

text \<open>The gaps as the claim has them: those between consecutive live objects and the tail
  gap, without the gap in front of the first object.\<close>

fun gaps_between_objects ::
    "uintptr_t \<Rightarrow> (uintptr_t \<times> size_t) list \<Rightarrow> uintptr_t \<Rightarrow> (size_t \<times> uintptr_t) list" where
  "gaps_between_objects start [] limit = [(limit - start, start)]"
| "gaps_between_objects start ((addr, sz) # objs) limit = gaps (addr + sz) objs limit"

definition live_objects :: "(obj \<Rightarrow> size_t) \<Rightarrow> ContinuousSpace \<Rightarrow> 't ZygoteCompactingCollector
    \<Rightarrow> (uintptr_t \<times> size_t) list" where
  "live_objects SizeOf space c =
     map (\<lambda>obj. (obj, RoundUp (SizeOf obj) kObjectAlignment)) (bitmaps c (GetLiveBitmap space))"

text \<open>A bump pointer space as the spec has it (objects that do not fit are appended): the
  state is the end of the space, and an allocation returns it and advances it.\<close>

definition bump_Alloc :: "size_t \<Rightarrow> uintptr_t \<Rightarrow> obj \<times> uintptr_t" where
  "bump_Alloc n e = (e, e + n)"

definition space0 :: ContinuousSpace where
  "space0 = \<lparr>Begin = 0x1000, End = 0x1100, GetLiveBitmap = 0, GetMarkBitmap = 1\<rparr>"

definition zygote_collector0 :: "uintptr_t ZygoteCompactingCollector" where
  "zygote_collector0 = \<lparr>bins = [], bin_live_bitmap = 0, bin_mark_bitmap = 0, to_space = 0x1100,
     to_space_live_bitmap = None, GetNonMovingSpace = space0,
     bitmaps = (\<lambda>b. if b = 0 then [0x1010, 0x1040] else []), memcpy_log = []\<rparr>"

definition SizeOf0 :: "obj \<Rightarrow> size_t" where
  "SizeOf0 obj = (if obj = 0x1010 then 12 else if obj = 0x1040 then 0x20 else if obj = 0x5000 then 20
     else 0x200)"

section \<open>Properties\<close>

subsection \<open>Laws of actions\<close>

lemma bindM_ret [simp]: "bindM (ret x) f = f x"
  by (rule ext) (simp add: bindM_def ret_def split: option.split prod.split)

lemma bindM_gets [simp]: "bindM (gets g) f = (\<lambda>h. f (g h) h)"
  by (rule ext) (simp add: bindM_def gets_def split: option.split prod.split)

lemma bindM_fatal [simp]: "bindM (fatal msg) f = fatal msg"
  by (rule ext) (simp add: bindM_def fatal_def)

lemma thenM_modify [simp]: "thenM (modify g) n = (\<lambda>h. n (g h))"
  by (rule ext) (simp add: thenM_def bindM_def modify_def split: option.split prod.split)

lemma thenM_ret [simp]: "thenM (ret x) n = n"
  by (simp add: thenM_def)

lemma thenM_fatal [simp]: "thenM (fatal msg) n = fatal msg"
  by (simp add: thenM_def)

lemma thenM_emit:
  "thenM (emit e) n = (\<lambda>h. map_option (\<lambda>(r, es, h'). (r, e # es, h')) (n h))"
  by (rule ext) (simp add: thenM_def bindM_def emit_def split: option.split prod.split)

subsection \<open>Partial collection without a zygote space\<close>

lemma CollectGarbageInternal_partial_none:
  "\<not> have_zygote_space h \<Longrightarrow>
   CollectGarbageInternal env kGcTypePartial gc_cause clear_soft h = Some (Ret kGcTypeNone, [], h)"
  by (simp add: CollectGarbageInternal_def ret_def)

text \<open>C10: a call of \<^verbatim>\<open>CollectGarbageInternal\<close> that asks for a partial GC while there is
  no zygote space returns \<^verbatim>\<open>kGcTypeNone\<close>; it emits no event (no collector is run, nothing
  is logged) and the heap it leaves is the heap it was given.\<close>

theorem CollectGarbageInternal_partial_without_zygote:
  assumes "\<not> have_zygote_space h"
  shows "CollectGarbageInternal env kGcTypePartial gc_cause clear_soft_references h
           = Some (Ret kGcTypeNone, [], h)"
  using assms by (rule CollectGarbageInternal_partial_none)

theorem CollectGarbageInternal_partial_without_zygote_witness:
  "\<not> have_zygote_space heap0 \<and>
   CollectGarbageInternal env0 kGcTypePartial kGcCauseForAlloc False heap0
     = Some (Ret kGcTypeNone, [], heap0)"
  using CollectGarbageInternal_partial_without_zygote [of heap0 env0 kGcCauseForAlloc False]
  by (simp add: heap0_def)

subsection \<open>Native accounting\<close>

lemma sint_sub_no_overflow:
  fixes a b :: "32 word"
  assumes "- (2 ^ 31) \<le> sint a - sint b" and "sint a - sint b < 2 ^ 31"
  shows "sint (a - b) = sint a - sint b"
  using assms by (simp add: sint_word_ariths signed_take_bit_int_eq_self)

text \<open>C7: \<^verbatim>\<open>RegisterNativeFree(bytes)\<close> compares the \<^verbatim>\<open>int\<close> difference of the counter and
  \<open>bytes\<close> with zero. When it is negative a \<^verbatim>\<open>RuntimeException\<close> is thrown and the heap,
  the counter included, is as before; otherwise nothing is thrown and the counter is
  the difference. Whenever the mathematical difference fits an \<^verbatim>\<open>int\<close>, the \<^verbatim>\<open>int\<close>
  difference is that number, so the counter has gone down by exactly \<open>bytes\<close>.\<close>

theorem RegisterNativeFree_counter:
  "RegisterNativeFree bytes h =
     (if sint (native_bytes_allocated h - bytes) < 0
      then Some (Ret (), [ThrowRuntimeException], h)
      else Some (Ret (), [],
                 h\<lparr>native_bytes_allocated := native_bytes_allocated h - bytes\<rparr>))
   \<and> (- (2 ^ 31) \<le> sint (native_bytes_allocated h) - sint bytes
        \<and> sint (native_bytes_allocated h) - sint bytes < 2 ^ 31
      \<longrightarrow> sint (native_bytes_allocated h - bytes)
            = sint (native_bytes_allocated h) - sint bytes)"
  by (simp add: RegisterNativeFree_def Let_def emit_def modify_def sint_sub_no_overflow)

theorem RegisterNativeFree_counter_witness:
  "RegisterNativeFree 5 (heap0\<lparr>native_bytes_allocated := 3\<rparr>)
     = Some (Ret (), [ThrowRuntimeException], heap0\<lparr>native_bytes_allocated := 3\<rparr>)
   \<and> RegisterNativeFree 5 (heap0\<lparr>native_bytes_allocated := 12\<rparr>)
     = Some (Ret (), [], heap0\<lparr>native_bytes_allocated := 7\<rparr>)
   \<and> sint (12 - 5 :: 32 word) = sint (12 :: 32 word) - sint (5 :: 32 word)"
  using RegisterNativeFree_counter [of 5 "heap0\<lparr>native_bytes_allocated := 3\<rparr>"]
        RegisterNativeFree_counter [of 5 "heap0\<lparr>native_bytes_allocated := 12\<rparr>"]
  by simp

subsection \<open>Growth policy\<close>

lemma GrowForUtilization_next_gc_fields [simp]:
  "ignore_max_footprint (GrowForUtilization_next_gc g h) = ignore_max_footprint h"
  "concurrent_gc (GrowForUtilization_next_gc g h) = concurrent_gc h"
  "max_allowed_footprint (GrowForUtilization_next_gc g h) = max_allowed_footprint h"
  "growth_limit (GrowForUtilization_next_gc g h) = growth_limit h"
  "allocation_rate (GrowForUtilization_next_gc g h) = allocation_rate h"
  "num_bytes_allocated (GrowForUtilization_next_gc g h) = num_bytes_allocated h"
  "collector_type (GrowForUtilization_next_gc g h) = collector_type h"
  "gc_plan (GrowForUtilization_next_gc g h) = gc_plan h"
  by (simp_all add: GrowForUtilization_next_gc_def)

lemma GrowForUtilization_next_gc_non_sticky:
  "g \<noteq> kGcTypeSticky \<Longrightarrow> next_gc_type (GrowForUtilization_next_gc g h) = kGcTypeSticky"
  by (simp add: GrowForUtilization_next_gc_def)

lemma SetIdealFootprint_fields [simp]:
  "ignore_max_footprint (SetIdealFootprint t h) = ignore_max_footprint h"
  "concurrent_gc (SetIdealFootprint t h) = concurrent_gc h"
  "max_allowed_footprint (SetIdealFootprint t h) = min t (growth_limit h)"
  "allocation_rate (SetIdealFootprint t h) = allocation_rate h"
  "next_gc_type (SetIdealFootprint t h) = next_gc_type h"
  "collector_type (SetIdealFootprint t h) = collector_type h"
  "gc_plan (SetIdealFootprint t h) = gc_plan h"
  by (auto simp add: SetIdealFootprint_def GetMaxMemory_def min_def)

lemma GrowForUtilization_concurrent_fields [simp]:
  "max_allowed_footprint (GrowForUtilization_concurrent env d b h) = max_allowed_footprint h"
  "next_gc_type (GrowForUtilization_concurrent env d b h) = next_gc_type h"
  "collector_type (GrowForUtilization_concurrent env d b h) = collector_type h"
  "gc_plan (GrowForUtilization_concurrent env d b h) = gc_plan h"
  "concurrent_start_bytes (GrowForUtilization_concurrent env d b h) =
      max (max_allowed_footprint h - GrowForUtilization_remaining_bytes env d h) b"
  by (simp_all add: GrowForUtilization_concurrent_def Let_def)

lemma GrowForUtilization_collector_type [simp]:
  "collector_type (GrowForUtilization env g d h) = collector_type h"
  by (simp add: GrowForUtilization_def Let_def)

lemma GrowForUtilization_gc_plan [simp]:
  "gc_plan (GrowForUtilization env g d h) = gc_plan h"
  by (simp add: GrowForUtilization_def Let_def)

lemma GrowForUtilization_next_gc_type:
  "g \<noteq> kGcTypeSticky \<Longrightarrow> next_gc_type (GrowForUtilization env g d h) = kGcTypeSticky"
  by (simp add: GrowForUtilization_def Let_def GrowForUtilization_next_gc_non_sticky)

lemma GrowForUtilization_max_allowed_footprint:
  "\<not> ignore_max_footprint h \<Longrightarrow>
   max_allowed_footprint (GrowForUtilization env g d h)
     = min (GrowForUtilization_target_size env g h) (growth_limit h)"
  by (simp add: GrowForUtilization_def Let_def)

lemma GrowForUtilization_concurrent_start_bytes:
  "concurrent_gc h \<Longrightarrow> \<not> ignore_max_footprint h \<Longrightarrow>
   concurrent_start_bytes (GrowForUtilization env g d h)
     = max (min (GrowForUtilization_target_size env g h) (growth_limit h)
            - GrowForUtilization_remaining_bytes env d
                (SetIdealFootprint (GrowForUtilization_target_size env g h)
                  (GrowForUtilization_next_gc g
                     (h\<lparr>last_gc_size := num_bytes_allocated h,
                        last_gc_time_ns := NanoTime h\<rparr>))))
           (num_bytes_allocated h)"
  by (simp add: GrowForUtilization_def Let_def GetBytesAllocated_def)

lemma GrowForUtilization_remaining_bytes_eq:
  "GrowForUtilization_remaining_bytes env d h =
     (let c = max (min (double_mul_seconds env (allocation_rate h) (NsToMs d)) (512 * 1024))
                  (128 * 1024)
      in if c > max_allowed_footprint h then 128 * 1024 else c)"
  by (simp add: GrowForUtilization_remaining_bytes_def Let_def
        kMinConcurrentRemainingBytes_def kMaxConcurrentRemainingBytes_def KB_def)

lemma non_sticky_target_size:
  assumes "gc_type \<noteq> kGcTypeSticky"
  shows "GrowForUtilization_target_size env gc_type h =
           (let q = double_div env (num_bytes_allocated h) (target_utilization h);
                hi = num_bytes_allocated h + max_free h;
                lo = num_bytes_allocated h + min_free h
            in if hi < q then hi else max q lo)"
  using assms
  by (auto simp add: GrowForUtilization_target_size_def GetBytesAllocated_def
        GetTargetHeapUtilization_def Let_def max_def)

text \<open>C3, as the claim states it, fails: with 4 MiB allocated, utilization 0.5 (the
  quotient is 8 MiB), \<open>maxFree\<close> = 2 MiB and \<open>minFree\<close> = 3 MiB, a full GC leaves the
  target at \<open>bytesAllocated + maxFree\<close> = 6 MiB, while the formula of the claim gives
  7 MiB.\<close>

theorem GrowForUtilization_target_counterexample:
  "let h = heap0\<lparr>num_bytes_allocated := 4194304, min_free := 3145728, max_free := 2097152\<rparr>
   in GrowForUtilization_target_size env0 kGcTypeFull h = 6291456
    \<and> max_allowed_footprint (GrowForUtilization env0 kGcTypeFull 0 h) = 6291456
    \<and> max (min (double_div env0 (num_bytes_allocated h) (target_utilization h))
                (num_bytes_allocated h + max_free h))
           (num_bytes_allocated h + min_free h) = 7340032"
  by (simp add: Let_def GrowForUtilization_max_allowed_footprint
        GrowForUtilization_target_size_def heap0_def env0_def exact_double_div_def
        GetBytesAllocated_def GetTargetHeapUtilization_def)

text \<open>C3, amended: after a GC whose type is not sticky, with \<open>q\<close> the quotient
  \<open>bytesAllocated / targetUtilization\<close>, the target is \<open>bytesAllocated + maxFree\<close> when \<open>q\<close>
  is above that, and \<open>max q (bytesAllocated + minFree)\<close> otherwise. This is the formula
  of the claim whenever \<open>bytesAllocated + minFree \<le> bytesAllocated + maxFree\<close>. The next
  GC type is sticky, and unless the maximum footprint is ignored the target, cut at the
  growth limit, is the new \<^verbatim>\<open>max_allowed_footprint_\<close>.\<close>

theorem GrowForUtilization_non_sticky:
  assumes "gc_type \<noteq> kGcTypeSticky"
  shows "GrowForUtilization_target_size env gc_type h =
           (let q = double_div env (num_bytes_allocated h) (target_utilization h);
                hi = num_bytes_allocated h + max_free h;
                lo = num_bytes_allocated h + min_free h
            in if hi < q then hi else max q lo)
       \<and> (num_bytes_allocated h + min_free h \<le> num_bytes_allocated h + max_free h \<longrightarrow>
            GrowForUtilization_target_size env gc_type h =
              max (min (double_div env (num_bytes_allocated h) (target_utilization h))
                       (num_bytes_allocated h + max_free h))
                  (num_bytes_allocated h + min_free h))
       \<and> next_gc_type (GrowForUtilization env gc_type gc_duration h) = kGcTypeSticky
       \<and> (\<not> ignore_max_footprint h \<longrightarrow>
            max_allowed_footprint (GrowForUtilization env gc_type gc_duration h)
              = min (GrowForUtilization_target_size env gc_type h) (growth_limit h))"
proof (intro conjI impI)
  show "GrowForUtilization_target_size env gc_type h =
           (let q = double_div env (num_bytes_allocated h) (target_utilization h);
                hi = num_bytes_allocated h + max_free h;
                lo = num_bytes_allocated h + min_free h
            in if hi < q then hi else max q lo)"
    using assms by (rule non_sticky_target_size)
next
  assume "num_bytes_allocated h + min_free h \<le> num_bytes_allocated h + max_free h"
  then show "GrowForUtilization_target_size env gc_type h =
           max (min (double_div env (num_bytes_allocated h) (target_utilization h))
                    (num_bytes_allocated h + max_free h))
               (num_bytes_allocated h + min_free h)"
    unfolding non_sticky_target_size [OF assms] by (auto simp add: Let_def max_def min_def)
next
  show "next_gc_type (GrowForUtilization env gc_type gc_duration h) = kGcTypeSticky"
    using assms by (rule GrowForUtilization_next_gc_type)
next
  assume "\<not> ignore_max_footprint h"
  then show "max_allowed_footprint (GrowForUtilization env gc_type gc_duration h)
           = min (GrowForUtilization_target_size env gc_type h) (growth_limit h)"
    by (rule GrowForUtilization_max_allowed_footprint)
qed

theorem GrowForUtilization_non_sticky_witness:
  "let h = heap0\<lparr>num_bytes_allocated := 4194304\<rparr>
   in kGcTypeFull \<noteq> kGcTypeSticky
    \<and> num_bytes_allocated h + min_free h \<le> num_bytes_allocated h + max_free h
    \<and> \<not> ignore_max_footprint h
    \<and> GrowForUtilization_target_size env0 kGcTypeFull h = 6291456
    \<and> max (min (double_div env0 (num_bytes_allocated h) (target_utilization h))
                (num_bytes_allocated h + max_free h))
           (num_bytes_allocated h + min_free h) = 6291456
    \<and> next_gc_type (GrowForUtilization env0 kGcTypeFull 0 h) = kGcTypeSticky
    \<and> max_allowed_footprint (GrowForUtilization env0 kGcTypeFull 0 h) = 6291456"
  using GrowForUtilization_non_sticky
          [of kGcTypeFull env0 "heap0\<lparr>num_bytes_allocated := 4194304\<rparr>" 0]
  by (simp add: Let_def heap0_def env0_def exact_double_div_def)

text \<open>C4, as the claim states it, fails: under a concurrent collector with 100 KiB
  allocated, a target of 300 KiB, an allocation rate of 400 KiB/s and a GC of one
  second, the estimate (400 KiB) is above the footprint, the guard replaces it by
  128 KiB and the trigger is 300 KiB - 128 KiB = 172 KiB. The formula of the claim
  gives \<open>2^32 - 100 KiB\<close> in \<^verbatim>\<open>size_t\<close> arithmetic and 100 KiB over the integers.\<close>

theorem GrowForUtilization_concurrent_counterexample:
  "let h = heap0\<lparr>concurrent_gc := True, num_bytes_allocated := 102400, min_free := 204800,
                 max_free := 409600, allocation_rate := 409600\<rparr>;
       h' = GrowForUtilization env0 kGcTypeFull 1000000000 h;
       estimate = double_mul_seconds env0 (allocation_rate h) (NsToMs 1000000000);
       clamped = max (min estimate (512 * 1024)) (128 * 1024)
   in concurrent_gc h \<and> \<not> ignore_max_footprint h
    \<and> max_allowed_footprint h' = 307200
    \<and> clamped = 409600
    \<and> concurrent_start_bytes h' = 176128
    \<and> max (max_allowed_footprint h' - clamped) (num_bytes_allocated h) = 4294864896
    \<and> max (int (unat (max_allowed_footprint h')) - int (unat clamped))
           (int (unat (num_bytes_allocated h))) = 102400"
  by (simp add: Let_def GrowForUtilization_concurrent_start_bytes
        GrowForUtilization_remaining_bytes_eq GrowForUtilization_max_allowed_footprint
        GrowForUtilization_target_size_def heap0_def env0_def exact_double_div_def
        exact_double_mul_seconds_def NsToMs_def GetBytesAllocated_def
        GetTargetHeapUtilization_def)

text \<open>C4, amended: after a GC under a concurrent collector, when the maximum footprint
  is not ignored and the footprint \<open>F\<close> (\<^verbatim>\<open>max_allowed_footprint_\<close>) that this call has just
  set is at least 128 KiB, with \<open>c\<close> the product \<open>allocationRate \<times> lastGcDurationSeconds\<close>
  clamped to [128 KiB, 512 KiB], the trigger is \<open>max (F - r) bytesAllocated\<close> where \<open>r\<close> is
  \<open>c\<close> if \<open>c \<le> F\<close> and 128 KiB otherwise. Then \<open>r \<le> F\<close>, which is the \<^verbatim>\<open>DCHECK_LE\<close> of the
  source, and the subtraction does not wrap: the equation also holds over the natural
  numbers.\<close>

theorem GrowForUtilization_concurrent_start:
  assumes "concurrent_gc h" and "\<not> ignore_max_footprint h"
    and "128 * 1024 \<le> max_allowed_footprint (GrowForUtilization env gc_type gc_duration h)"
  shows "let F = max_allowed_footprint (GrowForUtilization env gc_type gc_duration h);
             c = max (min (double_mul_seconds env (allocation_rate h) (NsToMs gc_duration))
                          (512 * 1024)) (128 * 1024);
             r = (if F < c then 128 * 1024 else c)
         in concurrent_start_bytes (GrowForUtilization env gc_type gc_duration h)
              = max (F - r) (num_bytes_allocated h)
          \<and> r \<le> F
          \<and> unat (concurrent_start_bytes (GrowForUtilization env gc_type gc_duration h))
              = max (unat F - unat r) (unat (num_bytes_allocated h))"
proof -
  define F where "F = max_allowed_footprint (GrowForUtilization env gc_type gc_duration h)"
  define c where "c = max (min (double_mul_seconds env (allocation_rate h) (NsToMs gc_duration))
                          (512 * 1024)) (128 * 1024 :: size_t)"
  define r where "r = (if F < c then 128 * 1024 else c)"
  have start: "concurrent_start_bytes (GrowForUtilization env gc_type gc_duration h)
      = max (F - r) (num_bytes_allocated h)"
    using assms(1,2) unfolding F_def c_def r_def
    by (simp add: GrowForUtilization_concurrent_start_bytes
          GrowForUtilization_max_allowed_footprint GrowForUtilization_remaining_bytes_eq
          Let_def)
  have le: "r \<le> F"
    using assms(3) unfolding r_def F_def by auto
  have "unat (max (F - r) (num_bytes_allocated h))
      = max (unat (F - r)) (unat (num_bytes_allocated h))"
    by (simp add: max_def word_le_nat_alt)
  also have "unat (F - r) = unat F - unat r"
    using le by (rule unat_sub)
  finally have "unat (concurrent_start_bytes (GrowForUtilization env gc_type gc_duration h))
      = max (unat F - unat r) (unat (num_bytes_allocated h))"
    unfolding start .
  with start le show ?thesis
    unfolding Let_def F_def [symmetric] c_def [symmetric] r_def [symmetric] by blast
qed

theorem GrowForUtilization_concurrent_start_witness:
  "let h = heap0\<lparr>concurrent_gc := True, num_bytes_allocated := 4194304,
                 allocation_rate := 1048576\<rparr>;
       h' = GrowForUtilization env0 kGcTypeFull 250000000 h
   in concurrent_gc h \<and> \<not> ignore_max_footprint h
    \<and> (128 * 1024 :: size_t) \<le> max_allowed_footprint h'
    \<and> max_allowed_footprint h' = 6291456
    \<and> double_mul_seconds env0 (allocation_rate h) (NsToMs 250000000) = 262144
    \<and> concurrent_start_bytes h' = 6291456 - 262144
    \<and> unat (concurrent_start_bytes h') = 6029312"
  using GrowForUtilization_concurrent_start
          [of "heap0\<lparr>concurrent_gc := True, num_bytes_allocated := 4194304,
                     allocation_rate := 1048576\<rparr>" env0 kGcTypeFull 250000000]
  by (simp add: Let_def GrowForUtilization_max_allowed_footprint
        GrowForUtilization_target_size_def heap0_def env0_def exact_double_div_def
        exact_double_mul_seconds_def NsToMs_def GetBytesAllocated_def
        GetTargetHeapUtilization_def)

subsection \<open>Running actions\<close>

lemma bindM_RetE:
  assumes "bindM m f h = Some (Ret y, es, h')"
  obtains x es1 h1 es2 where "m h = Some (Ret x, es1, h1)" "f x h1 = Some (Ret y, es2, h')"
    "es = es1 @ es2"
  using assms by (auto simp add: bindM_def split: option.splits prod.splits result.splits)

lemma thenM_RetE:
  assumes "thenM m n h = Some (Ret y, es, h')"
  obtains es1 h1 es2 where "m h = Some (Ret (), es1, h1)" "n h1 = Some (Ret y, es2, h')"
    "es = es1 @ es2"
  using assms unfolding thenM_def by (auto elim!: bindM_RetE)

lemma bindM_SomeE:
  assumes "bindM m f h = Some (r, es, h')"
  obtains (Fatal) msg where "m h = Some (Fatal msg, es, h')" "r = Fatal msg"
  | (Ret) x es1 h1 es2 where "m h = Some (Ret x, es1, h1)" "f x h1 = Some (r, es2, h')"
    "es = es1 @ es2"
  using assms by (auto simp add: bindM_def split: option.splits prod.splits result.splits)

lemma bindM_Some_Ret:
  "m h = Some (Ret x, es, h1) \<Longrightarrow>
   bindM m f h = map_option (\<lambda>(r, es', h2). (r, es @ es', h2)) (f x h1)"
  by (simp add: bindM_def split: option.split)

lemma bindM_Some_Fatal:
  "m h = Some (Fatal msg, es, h1) \<Longrightarrow> bindM m f h = Some (Fatal msg, es, h1)"
  by (simp add: bindM_def)

lemma bindM_None: "m h = None \<Longrightarrow> bindM m f h = None"
  by (simp add: bindM_def)

lemma thenM_Some_Ret:
  "m h = Some (Ret x, es, h1) \<Longrightarrow>
   thenM m n h = map_option (\<lambda>(r, es', h2). (r, es @ es', h2)) (n h1)"
  by (simp add: thenM_def bindM_Some_Ret)

lemma WaitForGcToCompleteLocked_idle:
  "\<not> is_gc_running h \<Longrightarrow> WaitForGcToCompleteLocked env h = Some (Ret kGcTypeNone, [], h)"
  by (simp add: WaitForGcToCompleteLocked_def WaitForGcToCompleteLocked_loop.simps)

lemma WaitForGcToCompleteLocked_events:
  "WaitForGcToCompleteLocked env h = Some (r, es, h') \<Longrightarrow> es = [] \<and> (\<exists>g. r = Ret g)"
  by (auto simp add: WaitForGcToCompleteLocked_def split: option.splits prod.splits)

lemma StartGC_skip:
  assumes "WaitForGcToCompleteLocked env h = Some (Ret g, es, h1)"
      and "disable_moving_gc_count h1 \<noteq> 0"
  shows "StartGC env True h
           = Some (Ret False, [LogWarning ''Skipping GC due to disable moving GC count''], h1)"
  using assms(2) WaitForGcToCompleteLocked_events [OF assms(1)]
  by (simp add: StartGC_def bindM_Some_Ret [where m = "WaitForGcToCompleteLocked env" and h = h, OF assms(1)] thenM_emit ret_def)

lemma CollectGarbageInternal_skip:
  assumes "IsCompactingGC env (collector_type h)"
      and "gc_type = kGcTypePartial \<longrightarrow> have_zygote_space h"
      and "WaitForGcToCompleteLocked env h = Some (Ret g, es, h1)"
      and "disable_moving_gc_count h1 \<noteq> 0"
  shows "CollectGarbageInternal env gc_type gc_cause clear_soft h
           = Some (Ret kGcTypeNone,
                   (if IsHandlingStackOverflow env
                    then [LogWarning ''Performing GC on a thread that is handling a stack overflow.'']
                    else [])
                   @ [LogWarning ''Skipping GC due to disable moving GC count''], h1)"
proof -
  have start: "StartGC env (IsCompactingGC env (collector_type h)) h
      = Some (Ret False, [LogWarning ''Skipping GC due to disable moving GC count''], h1)"
    using assms(1) StartGC_skip [OF assms(3,4)] by simp
  have run: "bindM (StartGC env (IsCompactingGC env (collector_type h))) f h
      = map_option (\<lambda>(r, es', h2).
          (r, [LogWarning ''Skipping GC due to disable moving GC count''] @ es', h2))
          (f False h1)" for f :: "bool \<Rightarrow> GcType action"
    using start by (rule bindM_Some_Ret)
  show ?thesis
    using assms(2)
    apply (simp add: CollectGarbageInternal_def thenM_emit run)
    apply (simp add: ret_def)
    done
qed

lemma ChangeAllocator_run:
  "ChangeAllocator a h =
     (if current_allocator h \<noteq> a
      then Some (Ret (), [SetQuickAllocEntryPointsAllocator a], h\<lparr>current_allocator := a\<rparr>)
      else Some (Ret (), [], h))"
  by (simp add: ChangeAllocator_def thenM_emit emit_def ret_def)

lemma ChangeCollector_switch_collector_type:
  "ChangeCollector_switch env c h = Some (r, es, h') \<Longrightarrow> collector_type h' = collector_type h"
  by (cases c) (auto simp add: ChangeCollector_switch_def ChangeAllocator_run fatal_def
      split: if_splits)

lemma ChangeCollector_collector_type:
  assumes "ChangeCollector env c h = Some (Ret x, es, h')"
  shows "collector_type h' = c"
proof (cases "c = collector_type h")
  case True
  with assms show ?thesis by (simp add: ChangeCollector_def ret_def)
next
  case False
  with assms have "thenM (ChangeCollector_switch env c)
          (modify (\<lambda>h. h\<lparr>concurrent_start_bytes :=
                (if concurrent_gc h
                 then max (max_allowed_footprint h) kMinConcurrentRemainingBytes
                        - kMinConcurrentRemainingBytes
                 else size_t_max)\<rparr>)) (h\<lparr>collector_type := c, gc_plan := []\<rparr>)
        = Some (Ret x, es, h')"
    by (simp add: ChangeCollector_def)
  then obtain es1 h1 es2 where
    1: "ChangeCollector_switch env c (h\<lparr>collector_type := c, gc_plan := []\<rparr>) = Some (Ret (), es1, h1)"
    and 2: "modify (\<lambda>h. h\<lparr>concurrent_start_bytes :=
                (if concurrent_gc h
                 then max (max_allowed_footprint h) kMinConcurrentRemainingBytes
                        - kMinConcurrentRemainingBytes
                 else size_t_max)\<rparr>) h1 = Some (Ret x, es2, h')"
    by (rule thenM_RetE)
  from 1 have "collector_type h1 = c"
    by (simp add: ChangeCollector_switch_collector_type)
  with 2 show ?thesis by (auto simp add: modify_def)
qed

lemma EnqueueClearedReferences_run:
  "EnqueueClearedReferences env h =
     (if cleared_references h \<noteq> []
      then Some (Ret (), (if IsStarted env then [ReferenceQueueAdd (cleared_references h)] else []),
                 h\<lparr>cleared_references := []\<rparr>)
      else Some (Ret (), [], h))"
  by (simp add: EnqueueClearedReferences_def thenM_emit) (simp add: modify_def ret_def)

lemma EnqueueClearedReferences_collector_type:
  "EnqueueClearedReferences env h = Some (r, es, h') \<Longrightarrow> collector_type h' = collector_type h"
  by (auto simp add: EnqueueClearedReferences_run split: if_splits)

lemma FinishGC_run:
  "FinishGC g h = Some (Ret (), [], h\<lparr>is_gc_running := False, last_gc_type := g\<rparr>)"
  by (simp add: FinishGC_def modify_def)

lemma thenM_post:
  assumes "thenM m n h = Some (Ret x, es, h')"
  obtains h1 es1 where "n h1 = Some (Ret x, es1, h')"
  using assms by (rule thenM_RetE)

lemma TransitionCollector_collector_type:
  assumes "TransitionCollector env c h = Some (Ret x, es, h')"
  shows "collector_type h' = c"
proof (cases "c = collector_type h")
  case True
  with assms show ?thesis by (simp add: TransitionCollector_def ret_def)
next
  case False
  let ?rest = "thenM (emit ResumeAll)
      (thenM (EnqueueClearedReferences env)
        (\<lambda>h'. FinishGC kGcTypeFull
             (GrowForUtilization env kGcTypeFull (NanoTime h' - NanoTime h) h')))"
  from assms False have "thenM
       (TransitionCollector_StartGC env
         (IsCompactingGC env (background_collector_type h) \<or>
          IsCompactingGC env (post_zygote_collector_type h)))
       (thenM (emit SuspendAll)
         (thenM (TransitionCollector_switch env c)
           (thenM (ChangeCollector env c) ?rest))) h = Some (Ret x, es, h')"
    by (simp add: TransitionCollector_def)
  then obtain h1 es1 where "thenM (emit SuspendAll)
         (thenM (TransitionCollector_switch env c)
           (thenM (ChangeCollector env c) ?rest)) h1 = Some (Ret x, es1, h')"
    by (rule thenM_post)
  then obtain h2 es2 where "thenM (TransitionCollector_switch env c)
           (thenM (ChangeCollector env c) ?rest) h2 = Some (Ret x, es2, h')"
    by (rule thenM_post)
  then obtain h3 es3 where "thenM (ChangeCollector env c) ?rest h3 = Some (Ret x, es3, h')"
    by (rule thenM_post)
  then obtain es4 h4 es5 where cc: "ChangeCollector env c h3 = Some (Ret (), es4, h4)"
    and rest: "?rest h4 = Some (Ret x, es5, h')"
    by (rule thenM_RetE)
  from cc have 4: "collector_type h4 = c" by (rule ChangeCollector_collector_type)
  from rest obtain es6 h5 es7 where "emit ResumeAll h4 = Some (Ret (), es6, h5)"
    and rest2: "thenM (EnqueueClearedReferences env)
        (\<lambda>h'. FinishGC kGcTypeFull
             (GrowForUtilization env kGcTypeFull (NanoTime h' - NanoTime h) h')) h5
        = Some (Ret x, es7, h')"
    by (rule thenM_RetE)
  then have 5: "collector_type h5 = c" using 4 by (simp add: emit_def)
  from rest2 obtain es8 h6 es9 where
    e: "EnqueueClearedReferences env h5 = Some (Ret (), es8, h6)"
    and f: "FinishGC kGcTypeFull
             (GrowForUtilization env kGcTypeFull (NanoTime h6 - NanoTime h) h6)
        = Some (Ret x, es9, h')"
    by (rule thenM_RetE)
  from e 5 have "collector_type h6 = c"
    by (simp add: EnqueueClearedReferences_collector_type)
  with f show ?thesis by (auto simp add: FinishGC_run)
qed

lemma StartGC_idle:
  "\<not> is_gc_running h \<Longrightarrow>
   StartGC env c h =
     (if c \<and> disable_moving_gc_count h \<noteq> 0
      then Some (Ret False, [LogWarning ''Skipping GC due to disable moving GC count''], h)
      else Some (Ret True, [], h\<lparr>is_gc_running := True\<rparr>))"
  by (simp add: StartGC_def thenM_emit
        bindM_Some_Ret [where m = "WaitForGcToCompleteLocked env" and h = h,
          OF WaitForGcToCompleteLocked_idle])
     (simp add: ret_def)

lemma TransitionCollector_StartGC_warns:
  assumes "\<not> is_gc_running h" and "disable_moving_gc_count h \<noteq> 0"
      and "TransitionCollector_StartGC env True h = Some (r, es, h')"
  shows "\<exists>es'. es = LogWarning ''Skipping GC due to disable moving GC count'' # es'"
  using assms(3)
  by (subst (asm) TransitionCollector_StartGC.simps)
     (auto simp add: StartGC_idle [OF assms(1)] assms(2) split: Option.bind_splits)

lemma TransitionCollector_warns:
  assumes "c \<noteq> collector_type h"
      and "IsCompactingGC env (background_collector_type h)
           \<or> IsCompactingGC env (post_zygote_collector_type h)"
      and "\<not> is_gc_running h" and "disable_moving_gc_count h \<noteq> 0"
      and "TransitionCollector env c h = Some (r, es, h')"
  shows "\<exists>es'. es = LogWarning ''Skipping GC due to disable moving GC count'' # es'"
proof -
  from assms(1,2,5) obtain n where
    "thenM (TransitionCollector_StartGC env True) n h = Some (r, es, h')"
    by (auto simp add: TransitionCollector_def)
  then show ?thesis
    unfolding thenM_def
    by (cases rule: bindM_SomeE)
       (auto dest!: TransitionCollector_StartGC_warns [OF assms(3,4)])
qed

lemma TransitionCollector_StartGC_heap1: "TransitionCollector_StartGC env1 True heap1
   = Some (Ret (), [LogWarning ''Skipping GC due to disable moving GC count''],
           heap1\<lparr>disable_moving_gc_count := 0, is_gc_running := True\<rparr>)"
  apply (subst TransitionCollector_StartGC.simps)
  apply (simp add: StartGC_idle heap1_def heap0_def env1_def)
  apply (subst TransitionCollector_StartGC.simps)
  apply (simp add: StartGC_idle)
  done

lemma heap1_fields:
  "collector_type heap1 = kCollectorTypeMS"
  "background_collector_type heap1 = kCollectorTypeSS"
  "post_zygote_collector_type heap1 = kCollectorTypeMS"
  "temp_space heap1 = Some 3" "main_space heap1 = Some 1" "bump_pointer_space heap1 = Some 2"
  "semi_space_collector heap1
     = Some \<lparr>GetName = ''semispace'', IsConcurrent = False, GetGcType = kGcTypePartial\<rparr>"
  "use_tlab heap1 = False" "current_allocator heap1 = kAllocatorTypeDlMalloc"
  "cleared_references heap1 = []" "ignore_max_footprint heap1 = False"
  "num_bytes_allocated heap1 = 0" "target_utilization heap1 = 1 / 2"
  "max_free heap1 = 2097152" "min_free heap1 = 524288" "growth_limit heap1 = 67108864"
  "NanoTime heap1 = 0" "disable_moving_gc_count heap1 = 1" "is_gc_running heap1 = False"
  "process_state heap1 = kProcessStateJankImperceptible"
  by (simp_all add: heap1_def heap0_def)

lemma env1_fields:
  "IsCompactingGC env1 = (\<lambda>c. c = kCollectorTypeSS \<or> c = kCollectorTypeGSS)"
  "kMovingCollector env1 = True" "kUseRosAlloc env1 = False" "IsStarted env1 = True"
  "CollectorRun env1 = (\<lambda>c cause clear_soft h.
       (\<lparr>GetFreedObjects = 0, GetFreedBytes = 0, GetDurationNs = 0\<rparr>, h))"
  "double_div env1 = exact_double_div"
  by (simp_all add: env1_def env0_def)

lemma GrowForUtilization_frame [simp]:
  "current_allocator (GrowForUtilization env g d h) = current_allocator h"
  "main_space (GrowForUtilization env g d h) = main_space h"
  by (simp_all add: GrowForUtilization_def Let_def GrowForUtilization_next_gc_def
        SetIdealFootprint_def GrowForUtilization_concurrent_def)

lemma TransitionCollector_heap1: "\<exists>h'. TransitionCollector env1 kCollectorTypeSS heap1
    = Some (Ret (),
        [LogWarning ''Skipping GC due to disable moving GC count'', SuspendAll, Mprotect 3,
         SetFromSpace (Some 1), SetToSpace (Some 3),
         Run \<lparr>GetName = ''semispace'', IsConcurrent = False, GetGcType = kGcTypePartial\<rparr>
           kGcCauseCollectorTransition False,
         Madvise 1, RemoveSpace 1,
         SetQuickAllocEntryPointsAllocator kAllocatorTypeBumpPointer, ResumeAll], h')
    \<and> collector_type h' = kCollectorTypeSS \<and> current_allocator h' = kAllocatorTypeBumpPointer
    \<and> gc_plan h' = [kGcTypeFull] \<and> main_space h' = None"
  apply (simp add: TransitionCollector_def heap1_fields env1_fields
        thenM_Some_Ret [where m = "TransitionCollector_StartGC env1 True" and h = heap1, OF TransitionCollector_StartGC_heap1])
  apply (simp add: thenM_emit TransitionCollector_switch_def TransitionCollector_to_moving_def
      heap1_fields env1_fields Compact_def CHECK_def RunCollector_def)
  apply (simp add: bindM_def thenM_def ChangeCollector_def ChangeCollector_switch_def heap1_fields env1_fields
     ChangeAllocator_run EnqueueClearedReferences_run FinishGC_run emit_def ret_def modify_def gets_def
     Compact_def CHECK_def RunCollector_def fatal_def)
  done

subsection \<open>A collection that runs\<close>

lemma GrowForUtilization_frame2 [simp]:
  "have_zygote_space (GrowForUtilization env g d h) = have_zygote_space h"
  "garbage_collectors (GrowForUtilization env g d h) = garbage_collectors h"
  "is_gc_running (GrowForUtilization env g d h) = is_gc_running h"
  "disable_moving_gc_count (GrowForUtilization env g d h) = disable_moving_gc_count h"
  "cleared_references (GrowForUtilization env g d h) = cleared_references h"
  "concurrent_gc (GrowForUtilization env g d h) = concurrent_gc h"
  by (simp_all add: GrowForUtilization_def Let_def GrowForUtilization_next_gc_def
        SetIdealFootprint_def GrowForUtilization_concurrent_def)

lemma CollectGarbageInternal_finish_fields [simp]:
  "is_gc_running (CollectGarbageInternal_finish env g stats h) = False"
  "last_gc_type (CollectGarbageInternal_finish env g stats h) = g"
  "collector_type (CollectGarbageInternal_finish env g stats h) = collector_type h"
  "current_allocator (CollectGarbageInternal_finish env g stats h) = current_allocator h"
  "have_zygote_space (CollectGarbageInternal_finish env g stats h) = have_zygote_space h"
  "garbage_collectors (CollectGarbageInternal_finish env g stats h) = garbage_collectors h"
  "concurrent_gc (CollectGarbageInternal_finish env g stats h) = concurrent_gc h"
  "gc_plan (CollectGarbageInternal_finish env g stats h) = gc_plan h"
  "disable_moving_gc_count (CollectGarbageInternal_finish env g stats h) = disable_moving_gc_count h"
  "cleared_references (CollectGarbageInternal_finish env g stats h) = []"
  by (simp_all add: CollectGarbageInternal_finish_def)

lemma CollectGarbageInternal_allocation_rate_fields [simp]:
  "is_gc_running (CollectGarbageInternal_allocation_rate h) = is_gc_running h"
  "collector_type (CollectGarbageInternal_allocation_rate h) = collector_type h"
  "current_allocator (CollectGarbageInternal_allocation_rate h) = current_allocator h"
  "have_zygote_space (CollectGarbageInternal_allocation_rate h) = have_zygote_space h"
  "garbage_collectors (CollectGarbageInternal_allocation_rate h) = garbage_collectors h"
  "concurrent_gc (CollectGarbageInternal_allocation_rate h) = concurrent_gc h"
  "gc_plan (CollectGarbageInternal_allocation_rate h) = gc_plan h"
  "disable_moving_gc_count (CollectGarbageInternal_allocation_rate h) = disable_moving_gc_count h"
  "cleared_references (CollectGarbageInternal_allocation_rate h) = cleared_references h"
  by (simp_all add: CollectGarbageInternal_allocation_rate_def Let_def)

lemma bindM_StartGC_idle:
  "\<not> is_gc_running h \<Longrightarrow>
   bindM (StartGC env c) f h =
     (if c \<and> disable_moving_gc_count h \<noteq> 0
      then map_option (\<lambda>(r, es, h'). (r, LogWarning ''Skipping GC due to disable moving GC count'' # es, h'))
             (f False h)
      else f True (h\<lparr>is_gc_running := True\<rparr>))"
  by (simp add: bindM_def StartGC_idle split: option.split)

lemma cleared_references_already_empty:
  "cleared_references h = [] \<Longrightarrow> h\<lparr>cleared_references := []\<rparr> = h"
  by (cases h) simp

lemma CollectGarbageInternal_non_compacting:
  assumes "\<not> is_gc_running h" and "\<not> IsCompactingGC env (collector_type h)"
      and "\<not> IsHandlingStackOverflow env"
      and "current_allocator h = kAllocatorTypeRosAlloc \<or> current_allocator h = kAllocatorTypeDlMalloc"
      and "gc_type \<noteq> kGcTypePartial \<or> have_zygote_space h"
      and "find (\<lambda>c. IsConcurrent c = concurrent_gc h \<and> GetGcType c = gc_type) (garbage_collectors h) = Some c"
      and "CollectorRun env c gc_cause clear_soft
             (CollectGarbageInternal_allocation_rate (h\<lparr>is_gc_running := True\<rparr>)) = (stats, h1)"
  shows "CollectGarbageInternal env gc_type gc_cause clear_soft h =
     Some (Ret gc_type,
           Run c gc_cause clear_soft #
           (if cleared_references h1 \<noteq> [] \<and> IsStarted env
            then [ReferenceQueueAdd (cleared_references h1)] else []) @ [GcDidFinish],
           CollectGarbageInternal_finish env gc_type stats h1)"
proof -
  have sel: "CollectGarbageInternal_collector env False gc_type
               (CollectGarbageInternal_allocation_rate (h\<lparr>is_gc_running := True\<rparr>))
             = Some (Ret (c, gc_type), [],
                 CollectGarbageInternal_allocation_rate (h\<lparr>is_gc_running := True\<rparr>))"
    using assms(4,6) by (auto simp add: CollectGarbageInternal_collector_def ret_def)
  have run: "RunCollector env c gc_cause clear_soft
               (CollectGarbageInternal_allocation_rate (h\<lparr>is_gc_running := True\<rparr>))
             = Some (Ret stats, [Run c gc_cause clear_soft], h1)"
    using assms(7) by (simp add: RunCollector_def)
  show ?thesis
    using assms(1,2,3,5)
    apply (simp add: CollectGarbageInternal_def bindM_StartGC_idle)
    apply (simp add: bindM_Some_Ret [where m = "CollectGarbageInternal_collector env False gc_type", OF sel]
        bindM_Some_Ret [where m = "RunCollector env c gc_cause clear_soft", OF run])
    apply (simp add: thenM_def bindM_def EnqueueClearedReferences_run FinishGC_run emit_def ret_def
        CollectGarbageInternal_finish_def cleared_references_already_empty)
    done
qed

lemma heap0_fields:
  "is_gc_running heap0 = False" "collector_type heap0 = kCollectorTypeMS"
  "current_allocator heap0 = kAllocatorTypeDlMalloc" "have_zygote_space heap0 = False"
  "concurrent_gc heap0 = False" "cleared_references heap0 = []"
  "gc_plan heap0 = [kGcTypeSticky, kGcTypePartial, kGcTypeFull]"
  "disable_moving_gc_count heap0 = 0"
  "process_state heap0 = kProcessStateJankPerceptible"
  "background_collector_type heap0 = kCollectorTypeMS"
  "post_zygote_collector_type heap0 = kCollectorTypeMS"
  "garbage_collectors heap0 =
       [\<lparr>GetName = ''mark sweep'', IsConcurrent = False, GetGcType = kGcTypeFull\<rparr>,
        \<lparr>GetName = ''partial mark sweep'', IsConcurrent = False, GetGcType = kGcTypePartial\<rparr>,
        \<lparr>GetName = ''sticky mark sweep'', IsConcurrent = False, GetGcType = kGcTypeSticky\<rparr>,
        \<lparr>GetName = ''concurrent mark sweep'', IsConcurrent = True, GetGcType = kGcTypeFull\<rparr>,
        \<lparr>GetName = ''concurrent partial mark sweep'', IsConcurrent = True,
          GetGcType = kGcTypePartial\<rparr>,
        \<lparr>GetName = ''concurrent sticky mark sweep'', IsConcurrent = True,
          GetGcType = kGcTypeSticky\<rparr>,
        \<lparr>GetName = ''semispace'', IsConcurrent = False, GetGcType = kGcTypePartial\<rparr>]"
  by (simp_all add: heap0_def)

lemma env0_fields:
  "IsCompactingGC env0 = (\<lambda>c. c = kCollectorTypeSS \<or> c = kCollectorTypeGSS)"
  "IsHandlingStackOverflow env0 = False" "IsStarted env0 = True"
  "CollectorRun env0 = (\<lambda>c cause clear_soft h.
       (\<lparr>GetFreedObjects = 0, GetFreedBytes = 0, GetDurationNs = 0\<rparr>, h))"
  "TryToAllocate env0 = (\<lambda>grow allocator alloc_size h. (None, h))"
  by (simp_all add: env0_def)

subsection \<open>The busy wait of a transition\<close>

lemma TransitionCollector_StartGC_spins:
  assumes "TransitionCollector_StartGC env c h = Some y"
  shows "c \<and> \<not> is_gc_running h \<and> disable_moving_gc_count h \<noteq> 0
         \<and> (\<forall>h. \<not> is_gc_running h \<and> disable_moving_gc_count h \<noteq> 0 \<longrightarrow>
                \<not> is_gc_running (usleep env h) \<and> disable_moving_gc_count (usleep env h) \<noteq> 0)
         \<longrightarrow> False"
  by (rule TransitionCollector_StartGC.raw_induct
        [where P = "\<lambda>env c h y. c \<and> \<not> is_gc_running h \<and> disable_moving_gc_count h \<noteq> 0
         \<and> (\<forall>h. \<not> is_gc_running h \<and> disable_moving_gc_count h \<noteq> 0 \<longrightarrow>
                \<not> is_gc_running (usleep env h) \<and> disable_moving_gc_count (usleep env h) \<noteq> 0)
         \<longrightarrow> False", OF _ assms])
     (clarsimp simp add: StartGC_idle split: Option.bind_splits if_splits, blast)

lemma TransitionCollector_blocks:
  assumes "c \<noteq> collector_type h"
      and "IsCompactingGC env (background_collector_type h)
           \<or> IsCompactingGC env (post_zygote_collector_type h)"
      and "\<not> is_gc_running h" and "disable_moving_gc_count h \<noteq> 0"
      and "\<forall>h. \<not> is_gc_running h \<and> disable_moving_gc_count h \<noteq> 0 \<longrightarrow>
                \<not> is_gc_running (usleep env h) \<and> disable_moving_gc_count (usleep env h) \<noteq> 0"
  shows "TransitionCollector env c h = None"
proof -
  have "TransitionCollector_StartGC env True h = None"
    using TransitionCollector_StartGC_spins [of env True h] assms(3,4,5)
    by (cases "TransitionCollector_StartGC env True h") auto
  then show ?thesis
    using assms(1,2) by (simp add: TransitionCollector_def thenM_def bindM_None)
qed

subsection \<open>Moving GC disabled\<close>

text \<open>C6, as the claim states it, fails for a transition: with the disable count at 1
  when the transition to the semi-space collector is requested, and the count taken
  back to 0 by its owner while \<^verbatim>\<open>TransitionCollector\<close> sleeps, the warning is logged
  once and then the transition is carried out (the main space is evacuated and removed,
  collector, plan and allocator are changed).\<close>

theorem TransitionCollector_not_skipped_counterexample:
  "disable_moving_gc_count heap1 = 1 \<and> collector_type heap1 = kCollectorTypeMS
   \<and> IsCompactingGC env1 kCollectorTypeSS
   \<and> (\<exists>h'. TransitionCollector env1 kCollectorTypeSS heap1
        = Some (Ret (),
            [LogWarning ''Skipping GC due to disable moving GC count'', SuspendAll, Mprotect 3,
             SetFromSpace (Some 1), SetToSpace (Some 3),
             Run \<lparr>GetName = ''semispace'', IsConcurrent = False, GetGcType = kGcTypePartial\<rparr>
               kGcCauseCollectorTransition False,
             Madvise 1, RemoveSpace 1,
             SetQuickAllocEntryPointsAllocator kAllocatorTypeBumpPointer, ResumeAll], h')
        \<and> collector_type h' = kCollectorTypeSS
        \<and> current_allocator h' = kAllocatorTypeBumpPointer
        \<and> gc_plan h' = [kGcTypeFull] \<and> main_space h' = None)"
  using TransitionCollector_heap1 by (simp add: heap1_fields env1_fields)

text \<open>C6, amended. A collection: when \<^verbatim>\<open>CollectGarbageInternal\<close> is called under a compacting
  collector and the disable count is non-zero once any GC in progress has been waited
  for, the warning is logged, \<^verbatim>\<open>kGcTypeNone\<close> is returned and the heap is the one the wait
  left, which is the heap of the call when no GC was in progress. A transition:
  \<^verbatim>\<open>TransitionCollector\<close> never returns without the heap being in the requested
  collector; when the count is non-zero on entry it first logs the warning, and it
  does not return as long as nobody lowers the count.\<close>

theorem moving_gc_disabled:
  "(IsCompactingGC env (collector_type h)
      \<and> (gc_type = kGcTypePartial \<longrightarrow> have_zygote_space h)
      \<and> WaitForGcToCompleteLocked env h = Some (Ret last_gc, [], h1)
      \<and> disable_moving_gc_count h1 \<noteq> 0 \<longrightarrow>
    CollectGarbageInternal env gc_type gc_cause clear_soft h =
      Some (Ret kGcTypeNone,
            (if IsHandlingStackOverflow env
             then [LogWarning ''Performing GC on a thread that is handling a stack overflow.'']
             else [])
            @ [LogWarning ''Skipping GC due to disable moving GC count''], h1)
    \<and> (\<not> is_gc_running h \<longrightarrow> h1 = h))
   \<and> (TransitionCollector env c h = Some (Ret x, es, h') \<longrightarrow> collector_type h' = c)
   \<and> (c \<noteq> collector_type h
      \<and> (IsCompactingGC env (background_collector_type h)
           \<or> IsCompactingGC env (post_zygote_collector_type h))
      \<and> \<not> is_gc_running h \<and> disable_moving_gc_count h \<noteq> 0 \<longrightarrow>
        (\<forall>r es h'. TransitionCollector env c h = Some (r, es, h') \<longrightarrow>
           (\<exists>es'. es = LogWarning ''Skipping GC due to disable moving GC count'' # es'))
      \<and> ((\<forall>h. \<not> is_gc_running h \<and> disable_moving_gc_count h \<noteq> 0 \<longrightarrow>
                \<not> is_gc_running (usleep env h) \<and> disable_moving_gc_count (usleep env h) \<noteq> 0)
           \<longrightarrow> TransitionCollector env c h = None))"
proof (intro conjI impI allI)
  assume a: "IsCompactingGC env (collector_type h)
      \<and> (gc_type = kGcTypePartial \<longrightarrow> have_zygote_space h)
      \<and> WaitForGcToCompleteLocked env h = Some (Ret last_gc, [], h1)
      \<and> disable_moving_gc_count h1 \<noteq> 0"
  then show "CollectGarbageInternal env gc_type gc_cause clear_soft h =
      Some (Ret kGcTypeNone,
            (if IsHandlingStackOverflow env
             then [LogWarning ''Performing GC on a thread that is handling a stack overflow.'']
             else [])
            @ [LogWarning ''Skipping GC due to disable moving GC count''], h1)"
    using CollectGarbageInternal_skip [of env h gc_type last_gc "[]" h1 gc_cause clear_soft] by blast
  assume "\<not> is_gc_running h"
  with a show "h1 = h" by (simp add: WaitForGcToCompleteLocked_idle)
next
  assume "TransitionCollector env c h = Some (Ret x, es, h')"
  then show "collector_type h' = c" by (rule TransitionCollector_collector_type)
next
  fix r es h'
  assume "c \<noteq> collector_type h
      \<and> (IsCompactingGC env (background_collector_type h)
           \<or> IsCompactingGC env (post_zygote_collector_type h))
      \<and> \<not> is_gc_running h \<and> disable_moving_gc_count h \<noteq> 0"
    and "TransitionCollector env c h = Some (r, es, h')"
  then show "\<exists>es'. es = LogWarning ''Skipping GC due to disable moving GC count'' # es'"
    using TransitionCollector_warns [of c h env r es h'] by blast
next
  assume "c \<noteq> collector_type h
      \<and> (IsCompactingGC env (background_collector_type h)
           \<or> IsCompactingGC env (post_zygote_collector_type h))
      \<and> \<not> is_gc_running h \<and> disable_moving_gc_count h \<noteq> 0"
    and "\<forall>h. \<not> is_gc_running h \<and> disable_moving_gc_count h \<noteq> 0 \<longrightarrow>
                \<not> is_gc_running (usleep env h) \<and> disable_moving_gc_count (usleep env h) \<noteq> 0"
  then show "TransitionCollector env c h = None"
    using TransitionCollector_blocks [of c h env] by blast
qed

theorem moving_gc_disabled_witness:
  "CollectGarbageInternal env0 kGcTypeFull kGcCauseExplicit False
      (heap0\<lparr>collector_type := kCollectorTypeSS, disable_moving_gc_count := 1\<rparr>)
     = Some (Ret kGcTypeNone, [LogWarning ''Skipping GC due to disable moving GC count''],
             heap0\<lparr>collector_type := kCollectorTypeSS, disable_moving_gc_count := 1\<rparr>)
   \<and> (\<exists>es h'. TransitionCollector env1 kCollectorTypeSS heap1 = Some (Ret (), es, h')
        \<and> collector_type h' = kCollectorTypeSS
        \<and> (\<exists>es'. es = LogWarning ''Skipping GC due to disable moving GC count'' # es'))
   \<and> TransitionCollector env0 kCollectorTypeSS heap1 = None"
proof -
  let ?h = "heap0\<lparr>collector_type := kCollectorTypeSS, disable_moving_gc_count := 1\<rparr>"
  have idle: "WaitForGcToCompleteLocked env0 ?h = Some (Ret kGcTypeNone, [], ?h)"
    by (rule WaitForGcToCompleteLocked_idle) (simp add: heap0_fields)
  have 1: "CollectGarbageInternal env0 kGcTypeFull kGcCauseExplicit False ?h
     = Some (Ret kGcTypeNone, [LogWarning ''Skipping GC due to disable moving GC count''], ?h)"
    using moving_gc_disabled [where env = env0 and h = ?h and gc_type = kGcTypeFull
        and last_gc = kGcTypeNone and ?h1.0 = ?h and gc_cause = kGcCauseExplicit
        and clear_soft = False] idle
    by (simp add: env0_fields)
  obtain es h' where run: "TransitionCollector env1 kCollectorTypeSS heap1 = Some (Ret (), es, h')"
    using TransitionCollector_heap1 by blast
  have 2: "collector_type h' = kCollectorTypeSS"
    using moving_gc_disabled [where env = env1 and h = heap1 and c = kCollectorTypeSS
        and x = "()" and es = es and h' = h'] run
    by blast
  have 3: "\<exists>es'. es = LogWarning ''Skipping GC due to disable moving GC count'' # es'"
    using moving_gc_disabled [where env = env1 and h = heap1 and c = kCollectorTypeSS] run
    by (simp add: heap1_fields env1_fields)
  have 4: "TransitionCollector env0 kCollectorTypeSS heap1 = None"
    using moving_gc_disabled [where env = env0 and h = heap1 and c = kCollectorTypeSS]
    by (simp add: heap1_fields env0_fields env0_def)
  from 1 run 2 3 4 show ?thesis by blast
qed

subsection \<open>The events of an action\<close>

lemma emitsD: "emits P m \<Longrightarrow> m h = Some (r, es, h') \<Longrightarrow> e \<in> set es \<Longrightarrow> P e"
  by (auto simp add: emits_def)

lemma emits_ret: "emits P (ret x)" by (simp add: emits_def ret_def)
lemma emits_fatal: "emits P (fatal msg)" by (simp add: emits_def fatal_def)
lemma emits_gets: "emits P (gets f)" by (simp add: emits_def gets_def)
lemma emits_modify: "emits P (modify f)" by (simp add: emits_def modify_def)
lemma emits_emit: "P e \<Longrightarrow> emits P (emit e)" by (simp add: emits_def emit_def)
lemma emits_CHECK: "emits P (CHECK c msg)" by (simp add: CHECK_def emits_ret emits_fatal)

lemma emits_bindM:
  assumes "emits P m" and "\<And>x. emits P (f x)"
  shows "emits P (bindM m f)"
  unfolding emits_def
proof (intro allI impI)
  fix h r es h'
  assume "bindM m f h = Some (r, es, h')"
  then show "\<forall>e \<in> set es. P e"
  proof (cases rule: bindM_SomeE)
    case (Fatal msg)
    then show ?thesis using emitsD [OF assms(1)] by blast
  next
    case (Ret x es1 h1 es2)
    then show ?thesis using emitsD [OF assms(1)] emitsD [OF assms(2)] by fastforce
  qed
qed

lemma emits_thenM: "emits P m \<Longrightarrow> emits P n \<Longrightarrow> emits P (thenM m n)"
  by (simp add: thenM_def emits_bindM)

lemma emits_if: "emits P a \<Longrightarrow> emits P b \<Longrightarrow> emits P (if c then a else b)"
  by simp

lemma emits_case_option:
  "emits P a \<Longrightarrow> (\<And>y. emits P (f y)) \<Longrightarrow> emits P (case x of None \<Rightarrow> a | Some y \<Rightarrow> f y)"
  by (cases x) simp_all

lemma emits_case_prod: "(\<And>a b. emits P (f a b)) \<Longrightarrow> emits P (case x of (a, b) \<Rightarrow> f a b)"
  by (cases x) simp

lemmas emits_intros = emits_ret emits_fatal emits_gets emits_modify emits_CHECK emits_bindM
  emits_thenM emits_if emits_case_option emits_case_prod



lemma emits_EnqueueClearedReferences:
  "(\<And>refs. P (ReferenceQueueAdd refs)) \<Longrightarrow> emits P (EnqueueClearedReferences env)"
  unfolding EnqueueClearedReferences_def
  by (intro emits_intros emits_emit)



lemma emits_CollectGarbageInternal_collector:
  "(\<And>s. P (SetFromSpace s)) \<Longrightarrow> (\<And>s. P (SetToSpace s)) \<Longrightarrow> (\<And>s. P (Mprotect s)) \<Longrightarrow>
   emits P (CollectGarbageInternal_collector env compacting g)"
  unfolding CollectGarbageInternal_collector_def
  by (intro emits_intros emits_emit)


lemma gc_event_Run:
  "gc_event cause clear_soft e \<Longrightarrow> e = Run c cause' clear_soft' \<Longrightarrow>
   cause' = cause \<and> clear_soft' = clear_soft"
  by simp

subsection \<open>What a collection does\<close>

lemma no_Run_filter: "(\<forall>e \<in> set es. \<not> is_Run e) \<Longrightarrow> filter is_Run es = []"
  by (simp add: filter_empty_conv)

lemma StartGC_result:
  assumes "StartGC env c h = Some (Ret b, es, h')"
  shows "(b \<longrightarrow> es = [] \<and> is_gc_running h')
       \<and> (\<not> b \<longrightarrow> c \<and> es = [LogWarning ''Skipping GC due to disable moving GC count''])"
proof -
  from assms obtain g es1 h1 es2 where w: "WaitForGcToCompleteLocked env h = Some (Ret g, es1, h1)"
    and k: "(if c \<and> disable_moving_gc_count h1 \<noteq> 0
     then thenM (emit (LogWarning ''Skipping GC due to disable moving GC count''))
                (ret False)
     else thenM (modify (\<lambda>h. h\<lparr>is_gc_running := True\<rparr>)) (ret True)) h1 = Some (Ret b, es2, h')"
    and es: "es = es1 @ es2"
    unfolding StartGC_def by (auto elim!: bindM_RetE simp add: gets_def)
  from WaitForGcToCompleteLocked_events [OF w] have "es1 = []" by simp
  with k es show ?thesis
    by (auto simp add: thenM_emit ret_def split: if_splits)
qed

lemma CollectGarbageInternal_collector_result:
  assumes "CollectGarbageInternal_collector env compacting gc_type h = Some (Ret (c, g), es, h')"
  shows "g = (if compacting then kGcTypeFull else gc_type) \<and> h' = h
       \<and> (if compacting then semi_space_collector h = Some c
           else GetGcType c = gc_type \<and> IsConcurrent c = concurrent_gc h
              \<and> c \<in> set (garbage_collectors h))"
proof (cases compacting)
  case True
  with assms show ?thesis
    unfolding CollectGarbageInternal_collector_def
    by (auto simp add: fatal_def CHECK_def thenM_emit ret_def gets_def
        split: option.splits if_splits elim!: bindM_RetE thenM_RetE)
next
  case False
  with assms show ?thesis
    unfolding CollectGarbageInternal_collector_def
    by (auto simp add: fatal_def ret_def split: option.splits if_splits
        dest!: find_Some_iff [THEN iffD1] intro: nth_mem)
qed

lemma CollectGarbageInternal_outcome:
  assumes run: "CollectGarbageInternal env gc_type cause clear_soft h = Some (Ret r, es, h')"
  shows "(r = kGcTypeNone \<and> filter is_Run es = []
          \<and> (gc_type = kGcTypePartial \<and> \<not> have_zygote_space h \<and> es = [] \<and> h' = h
             \<or> IsCompactingGC env (collector_type h)
               \<and> LogWarning ''Skipping GC due to disable moving GC count'' \<in> set es))
       \<or> (\<exists>c. filter is_Run es = [Run c cause clear_soft]
             \<and> r = (if IsCompactingGC env (collector_type h) then kGcTypeFull else gc_type)
             \<and> (\<not> IsCompactingGC env (collector_type h) \<longrightarrow> GetGcType c = gc_type)
             \<and> GcDidFinish \<in> set es
             \<and> \<not> is_gc_running h' \<and> last_gc_type h' = r)"
proof (cases "gc_type = kGcTypePartial \<and> \<not> have_zygote_space h")
  case True
  with run show ?thesis by (simp add: CollectGarbageInternal_def ret_def)
next
  case False
  let ?comp = "IsCompactingGC env (collector_type h)"
  let ?W = "if IsHandlingStackOverflow env
              then emit (LogWarning
                     ''Performing GC on a thread that is handling a stack overflow.'')
              else ret ()"
  let ?K = "\<lambda>comp started. if \<not> started then ret kGcTypeNone
       else
         thenM (modify CollectGarbageInternal_allocation_rate)
        (bindM (CollectGarbageInternal_collector env comp gc_type) (\<lambda>(c, gc_type).
         bindM (RunCollector env c cause clear_soft) (\<lambda>stats.
         thenM (modify (\<lambda>h. h\<lparr>
                  total_objects_freed_ever := total_objects_freed_ever h + GetFreedObjects stats,
                  total_bytes_freed_ever := total_bytes_freed_ever h + GetFreedBytes stats\<rparr>))
        (thenM (EnqueueClearedReferences env)
        (thenM (modify (GrowForUtilization env gc_type (GetDurationNs stats)))
        (thenM (FinishGC gc_type)
        (thenM (emit GcDidFinish)
               (ret gc_type))))))))"
  from run False
  have "thenM ?W (\<lambda>h. bindM (StartGC env (IsCompactingGC env (collector_type h)))
           (?K (IsCompactingGC env (collector_type h))) h) h = Some (Ret r, es, h')"
    by (simp add: CollectGarbageInternal_def)
  then obtain es0 h0 es1 where w: "?W h = Some (Ret (), es0, h0)"
    and s0: "bindM (StartGC env (IsCompactingGC env (collector_type h0)))
           (?K (IsCompactingGC env (collector_type h0))) h0 = Some (Ret r, es1, h')"
    and es: "es = es0 @ es1"
    by (rule thenM_RetE)
  from w have h0: "h0 = h" and es0: "filter is_Run es0 = []"
    by (auto simp add: emit_def ret_def split: if_splits)
  have s: "bindM (StartGC env ?comp) (?K ?comp) h = Some (Ret r, es1, h')"
    using s0 unfolding h0 .
  from s obtain started es2 h2 es3 where
    st: "StartGC env ?comp h = Some (Ret started, es2, h2)"
    and k: "?K ?comp started h2 = Some (Ret r, es3, h')" and es1: "es1 = es2 @ es3"
    by (rule bindM_RetE)
  note sr = StartGC_result [OF st]
  show ?thesis
  proof (cases started)
    case False
    with k have "r = kGcTypeNone" "es3 = []" by (simp_all add: ret_def)
    with False sr es es0 es1 show ?thesis by auto
  next
    case True
    with sr have es2: "es2 = []" by simp
    let ?h3 = "CollectGarbageInternal_allocation_rate h2"
    from k True obtain c g es4 h4 stats es5 h5 es8 where
      col: "CollectGarbageInternal_collector env ?comp gc_type ?h3 = Some (Ret (c, g), es4, h4)"
      and rc: "RunCollector env c cause clear_soft h4 = Some (Ret stats, es5, h5)"
      and t: "thenM (EnqueueClearedReferences env)
          (\<lambda>h. thenM (FinishGC g) (thenM (emit GcDidFinish) (ret g))
                (GrowForUtilization env g (GetDurationNs stats) h))
          (h5\<lparr>total_objects_freed_ever := total_objects_freed_ever h5 + GetFreedObjects stats,
              total_bytes_freed_ever := total_bytes_freed_ever h5 + GetFreedBytes stats\<rparr>)
         = Some (Ret r, es8, h')"
      and es3: "es3 = es4 @ es5 @ es8"
      by (auto elim!: bindM_RetE)
    have es4: "filter is_Run es4 = []"
      using emitsD [OF emits_CollectGarbageInternal_collector [of "\<lambda>e. \<not> is_Run e"] col]
      by (intro no_Run_filter) auto
    note cr = CollectGarbageInternal_collector_result [OF col]
    from rc have es5: "es5 = [Run c cause clear_soft]"
      by (auto simp add: RunCollector_def split: prod.splits)
    from t obtain es6 h6 es7 where
      enq: "EnqueueClearedReferences env
           (h5\<lparr>total_objects_freed_ever := total_objects_freed_ever h5 + GetFreedObjects stats,
               total_bytes_freed_ever := total_bytes_freed_ever h5 + GetFreedBytes stats\<rparr>)
           = Some (Ret (), es6, h6)"
      and fin: "thenM (FinishGC g) (thenM (emit GcDidFinish) (ret g))
                (GrowForUtilization env g (GetDurationNs stats) h6) = Some (Ret r, es7, h')"
      and es8: "es8 = es6 @ es7"
      by (rule thenM_RetE)
    have es6: "filter is_Run es6 = []"
      using emitsD [OF emits_EnqueueClearedReferences [of "\<lambda>e. \<not> is_Run e"] enq]
      by (intro no_Run_filter) auto
    from fin have f: "r = g" "es7 = [GcDidFinish]"
      "h' = (GrowForUtilization env g (GetDurationNs stats) h6)
              \<lparr>is_gc_running := False, last_gc_type := g\<rparr>"
      by (auto simp add: thenM_def bindM_def modify_def FinishGC_def emit_def ret_def)
    have "filter is_Run es = [Run c cause clear_soft]"
      using es es0 es1 es2 es3 es4 es5 es6 es8 f by simp
    moreover have "GcDidFinish \<in> set es" using es es1 es3 es5 es8 f by simp
    moreover have "\<not> is_gc_running h'" "last_gc_type h' = r" using f by simp_all
    ultimately show ?thesis using cr f by auto
  qed
qed

subsection \<open>The allocation slow path\<close>

lemma bindM_CallTryToAllocate [simp]:
  "bindM (CallTryToAllocate env grow a n) f = (\<lambda>h.
     case TryToAllocate env grow a n h of (p, h1) \<Rightarrow> f p h1)"
  by (rule ext) (simp add: bindM_def CallTryToAllocate_def split: prod.split option.split)





subsection \<open>Out of memory only after the full escalation\<close>




subsection \<open>Process state\<close>

lemma bindM_discard:
  "bindM m (\<lambda>_. ret ()) h = map_option (\<lambda>(r, es, h'). (map_result (\<lambda>_. ()) r, es, h')) (m h)"
  by (auto simp add: bindM_def ret_def split: option.split result.split)

text \<open>C5, as the claim states it, fails: the process leaves the foreground while the heap
  is already in the background collector (both collector types are mark-sweep). The
  state is recorded and nothing else happens: no event, so no GC is run.\<close>

theorem UpdateProcessState_counterexample:
  "process_state heap0 = kProcessStateJankPerceptible
   \<and> collector_type heap0 = background_collector_type heap0
   \<and> UpdateProcessState env0 kProcessStateJankImperceptible heap0
       = Some (Ret (), [], heap0\<lparr>process_state := kProcessStateJankImperceptible\<rparr>)"
  by (simp add: UpdateProcessState_def TransitionCollector_def heap0_fields ret_def)

text \<open>C5, amended. When the new state differs from the recorded process state,
  \<^verbatim>\<open>UpdateProcessState\<close> records it and is \<^verbatim>\<open>TransitionCollector\<close> towards
  \<open>postZygoteCollectorType\<close> (jank perceptible) or \<open>backgroundCollectorType\<close> (otherwise):
  nothing more happens when the heap is already in that collector, and a call that
  returns leaves the heap in that collector. When the new state is the recorded one, no
  transition is attempted and the call is \<^verbatim>\<open>CollectGarbageInternal\<close> for a full GC with the
  background cause and soft references kept. When that call returns, either exactly one
  collector has been run, with the background cause and soft references kept (under a
  collector type that is not compacting it is a collector of GC type full), and the heap
  records a full GC as the last one; or the collector type is a compacting one, the
  warning that moving GC is disabled has been logged and no collector has been run.
  The latter is what happens on a heap with no GC in progress, a compacting collector type
  and a non-zero disable count.\<close>

theorem UpdateProcessState_dispatch:
  "(process_state h \<noteq> new_state \<longrightarrow>
      UpdateProcessState env new_state h
        = TransitionCollector env
            (if new_state = kProcessStateJankPerceptible
             then post_zygote_collector_type h else background_collector_type h)
            (h\<lparr>process_state := new_state\<rparr>)
      \<and> ((if new_state = kProcessStateJankPerceptible
           then post_zygote_collector_type h else background_collector_type h)
          = collector_type h \<longrightarrow>
          UpdateProcessState env new_state h = Some (Ret (), [], h\<lparr>process_state := new_state\<rparr>))
      \<and> (\<forall>x es h'. UpdateProcessState env new_state h = Some (Ret x, es, h') \<longrightarrow>
            collector_type h' =
              (if new_state = kProcessStateJankPerceptible
               then post_zygote_collector_type h else background_collector_type h)))
   \<and> (process_state h = new_state \<longrightarrow>
      UpdateProcessState env new_state h
        = map_option (\<lambda>(r, es, h'). (map_result (\<lambda>_. ()) r, es, h'))
            (CollectGarbageInternal env kGcTypeFull kGcCauseBackground False h)
      \<and> (\<forall>x es h'. UpdateProcessState env new_state h = Some (Ret x, es, h') \<longrightarrow>
            (\<exists>c. filter is_Run es = [Run c kGcCauseBackground False]
                \<and> (\<not> IsCompactingGC env (collector_type h) \<longrightarrow> GetGcType c = kGcTypeFull)
                \<and> last_gc_type h' = kGcTypeFull \<and> \<not> is_gc_running h')
          \<or> (filter is_Run es = []
              \<and> IsCompactingGC env (collector_type h)
              \<and> LogWarning ''Skipping GC due to disable moving GC count'' \<in> set es))
      \<and> (IsCompactingGC env (collector_type h) \<and> \<not> is_gc_running h
           \<and> disable_moving_gc_count h \<noteq> 0 \<longrightarrow>
          UpdateProcessState env new_state h
            = Some (Ret (),
                    (if IsHandlingStackOverflow env
                     then [LogWarning
                             ''Performing GC on a thread that is handling a stack overflow.'']
                     else [])
                    @ [LogWarning ''Skipping GC due to disable moving GC count''], h)))"
proof (intro conjI impI allI)
  assume "process_state h \<noteq> new_state"
  then show eq: "UpdateProcessState env new_state h
        = TransitionCollector env
            (if new_state = kProcessStateJankPerceptible
             then post_zygote_collector_type h else background_collector_type h)
            (h\<lparr>process_state := new_state\<rparr>)"
    by (simp add: UpdateProcessState_def)
  {
    assume "(if new_state = kProcessStateJankPerceptible
           then post_zygote_collector_type h else background_collector_type h)
          = collector_type h"
    then show "UpdateProcessState env new_state h
        = Some (Ret (), [], h\<lparr>process_state := new_state\<rparr>)"
      unfolding eq by (simp add: TransitionCollector_def ret_def)
  }
  {
    fix x es h'
    assume "UpdateProcessState env new_state h = Some (Ret x, es, h')"
    then show "collector_type h' =
              (if new_state = kProcessStateJankPerceptible
               then post_zygote_collector_type h else background_collector_type h)"
      unfolding eq by (rule TransitionCollector_collector_type)
  }
next
  assume same: "process_state h = new_state"
  then show eq: "UpdateProcessState env new_state h
        = map_option (\<lambda>(r, es, h'). (map_result (\<lambda>_. ()) r, es, h'))
            (CollectGarbageInternal env kGcTypeFull kGcCauseBackground False h)"
    by (simp add: UpdateProcessState_def bindM_discard)
  {
    fix x es h'
    assume "UpdateProcessState env new_state h = Some (Ret x, es, h')"
    then obtain a where a:
      "CollectGarbageInternal env kGcTypeFull kGcCauseBackground False h = Some (a, es, h')"
      "map_result (\<lambda>_. ()) a = Ret x"
      unfolding eq by (auto simp add: map_option_case split: option.splits)
    then obtain r where
      "CollectGarbageInternal env kGcTypeFull kGcCauseBackground False h = Some (Ret r, es, h')"
      by (cases a) simp_all
    from CollectGarbageInternal_outcome [OF this]
    show "(\<exists>c. filter is_Run es = [Run c kGcCauseBackground False]
                \<and> (\<not> IsCompactingGC env (collector_type h) \<longrightarrow> GetGcType c = kGcTypeFull)
                \<and> last_gc_type h' = kGcTypeFull \<and> \<not> is_gc_running h')
          \<or> (filter is_Run es = []
              \<and> IsCompactingGC env (collector_type h)
              \<and> LogWarning ''Skipping GC due to disable moving GC count'' \<in> set es)"
      by auto
  }
  {
    assume c: "IsCompactingGC env (collector_type h) \<and> \<not> is_gc_running h
           \<and> disable_moving_gc_count h \<noteq> 0"
    then have "WaitForGcToCompleteLocked env h = Some (Ret kGcTypeNone, [], h)"
      by (simp add: WaitForGcToCompleteLocked_idle)
    from CollectGarbageInternal_skip [OF _ _ this, of kGcTypeFull kGcCauseBackground False] c
    show "UpdateProcessState env new_state h
            = Some (Ret (),
                    (if IsHandlingStackOverflow env
                     then [LogWarning
                             ''Performing GC on a thread that is handling a stack overflow.'']
                     else [])
                    @ [LogWarning ''Skipping GC due to disable moving GC count''], h)"
      unfolding eq by simp
  }
qed

theorem UpdateProcessState_dispatch_witness:
  "(\<exists>es h'. UpdateProcessState env1 kProcessStateJankImperceptible
              (heap1\<lparr>process_state := kProcessStateJankPerceptible\<rparr>) = Some (Ret (), es, h')
        \<and> collector_type h' = kCollectorTypeSS)
   \<and> UpdateProcessState env0 kProcessStateJankImperceptible heap0
       = Some (Ret (), [], heap0\<lparr>process_state := kProcessStateJankImperceptible\<rparr>)
   \<and> (\<exists>h'. UpdateProcessState env0 kProcessStateJankPerceptible heap0
        = Some (Ret (),
            [Run \<lparr>GetName = ''mark sweep'', IsConcurrent = False, GetGcType = kGcTypeFull\<rparr>
               kGcCauseBackground False, GcDidFinish], h')
        \<and> last_gc_type h' = kGcTypeFull \<and> \<not> is_gc_running h')
   \<and> UpdateProcessState env0 kProcessStateJankPerceptible
        (heap0\<lparr>collector_type := kCollectorTypeSS, disable_moving_gc_count := 1\<rparr>)
       = Some (Ret (), [LogWarning ''Skipping GC due to disable moving GC count''],
               heap0\<lparr>collector_type := kCollectorTypeSS, disable_moving_gc_count := 1\<rparr>)"
proof -
  let ?h = "heap1\<lparr>process_state := kProcessStateJankPerceptible\<rparr>"
  have restore: "?h\<lparr>process_state := kProcessStateJankImperceptible\<rparr> = heap1"
    by (simp add: heap1_def)
  obtain es h' where run: "TransitionCollector env1 kCollectorTypeSS heap1 = Some (Ret (), es, h')"
    using TransitionCollector_heap1 by blast
  have u: "UpdateProcessState env1 kProcessStateJankImperceptible ?h = Some (Ret (), es, h')"
    using UpdateProcessState_dispatch [where env = env1 and h = ?h
        and new_state = kProcessStateJankImperceptible] run
    by (simp add: restore heap1_fields)
  have 1: "collector_type h' = kCollectorTypeSS"
    using UpdateProcessState_dispatch [where env = env1 and h = ?h
        and new_state = kProcessStateJankImperceptible] u
    by (simp add: heap1_fields)
  have 2: "UpdateProcessState env0 kProcessStateJankImperceptible heap0
       = Some (Ret (), [], heap0\<lparr>process_state := kProcessStateJankImperceptible\<rparr>)"
  proof -
    have p: "process_state heap0 \<noteq> kProcessStateJankImperceptible"
      by (simp add: heap0_fields)
    have q: "(if kProcessStateJankImperceptible = kProcessStateJankPerceptible
              then post_zygote_collector_type heap0 else background_collector_type heap0)
             = collector_type heap0"
      by (simp add: heap0_fields)
    from UpdateProcessState_dispatch [where env = env0 and h = heap0
        and new_state = kProcessStateJankImperceptible] p q
    show ?thesis by blast
  qed
  let ?st = "\<lparr>GetFreedObjects = 0, GetFreedBytes = 0, GetDurationNs = 0\<rparr>"
  have gc: "CollectGarbageInternal env0 kGcTypeFull kGcCauseBackground False heap0
     = Some (Ret kGcTypeFull,
         [Run \<lparr>GetName = ''mark sweep'', IsConcurrent = False, GetGcType = kGcTypeFull\<rparr>
            kGcCauseBackground False, GcDidFinish],
         CollectGarbageInternal_finish env0 kGcTypeFull ?st
           (CollectGarbageInternal_allocation_rate (heap0\<lparr>is_gc_running := True\<rparr>)))"
    using CollectGarbageInternal_non_compacting [of heap0 env0 kGcTypeFull
        "\<lparr>GetName = ''mark sweep'', IsConcurrent = False, GetGcType = kGcTypeFull\<rparr>"
        kGcCauseBackground False ?st
        "CollectGarbageInternal_allocation_rate (heap0\<lparr>is_gc_running := True\<rparr>)"]
    by (simp add: heap0_fields env0_fields)
  have same: "process_state heap0 = kProcessStateJankPerceptible" by (simp add: heap0_fields)
  note t = UpdateProcessState_dispatch [where env = env0 and h = heap0
        and new_state = kProcessStateJankPerceptible]
  from t same have eq: "UpdateProcessState env0 kProcessStateJankPerceptible heap0
        = map_option (\<lambda>(r, es, h'). (map_result (\<lambda>_. ()) r, es, h'))
            (CollectGarbageInternal env0 kGcTypeFull kGcCauseBackground False heap0)"
    by blast
  then obtain h3 where u3: "UpdateProcessState env0 kProcessStateJankPerceptible heap0
        = Some (Ret (),
            [Run \<lparr>GetName = ''mark sweep'', IsConcurrent = False, GetGcType = kGcTypeFull\<rparr>
               kGcCauseBackground False, GcDidFinish], h3)"
    by (simp add: gc)
  from t same u3 have 3: "last_gc_type h3 = kGcTypeFull \<and> \<not> is_gc_running h3"
    by (auto simp add: env0_fields heap0_fields)
  let ?hc = "heap0\<lparr>collector_type := kCollectorTypeSS, disable_moving_gc_count := 1\<rparr>"
  have 4: "UpdateProcessState env0 kProcessStateJankPerceptible ?hc
       = Some (Ret (), [LogWarning ''Skipping GC due to disable moving GC count''], ?hc)"
  proof -
    have p: "process_state ?hc = kProcessStateJankPerceptible"
      by (simp add: heap0_fields)
    have q: "IsCompactingGC env0 (collector_type ?hc) \<and> \<not> is_gc_running ?hc
           \<and> disable_moving_gc_count ?hc \<noteq> 0"
      by (simp add: heap0_fields env0_fields)
    have e: "(if IsHandlingStackOverflow env0
              then [LogWarning
                      ''Performing GC on a thread that is handling a stack overflow.'']
              else [])
             @ [LogWarning ''Skipping GC due to disable moving GC count'']
             = [LogWarning ''Skipping GC due to disable moving GC count'']"
      by (simp add: env0_fields)
    from UpdateProcessState_dispatch [where env = env0 and h = ?hc
        and new_state = kProcessStateJankPerceptible] p q
    show ?thesis unfolding e by blast
  qed
  from u 1 2 u3 3 4 show ?thesis by blast
qed

subsection \<open>Fields and queues under the updates\<close>

lemma get_queue_set_queue [simp]:
  "get_queue q (set_queue q' xs h) = (if q = q' then xs else get_queue q h)"
  by (cases q; cases q'; simp)

lemma set_queue_frame [simp]:
  "offsets (set_queue q xs h) = offsets h" "object_memory (set_queue q xs h) = object_memory h"
  "arg (set_queue q xs h) = arg h"
  by (cases q; simp)+

lemma SetPendingNext_frame [simp]:
  "offsets (SetPendingNext r v h) = offsets h" "get_queue q (SetPendingNext r v h) = get_queue q h"
  "arg (SetPendingNext r v h) = arg h"
  by (cases q; simp add: SetPendingNext_def)+

lemma ClearReferenceReferent_frame [simp]:
  "offsets (ClearReferenceReferent r h) = offsets h"
  "get_queue q (ClearReferenceReferent r h) = get_queue q h"
  "arg (ClearReferenceReferent r h) = arg h"
  by (cases q; simp add: ClearReferenceReferent_def)+

lemma SetFinalizerReferenceZombie_frame [simp]:
  "offsets (SetFinalizerReferenceZombie r z h) = offsets h"
  "get_queue q (SetFinalizerReferenceZombie r z h) = get_queue q h"
  "arg (SetFinalizerReferenceZombie r z h) = arg h"
  by (cases q; simp add: SetFinalizerReferenceZombie_def)+

lemma GetPendingNext_simps [simp]:
  "GetPendingNext (set_queue q xs h) = GetPendingNext h"
  "GetPendingNext (SetPendingNext r v h) x = (if x = r then v else GetPendingNext h x)"
  "reference_referent_offset (offsets h) \<noteq> reference_pendingNext_offset (offsets h) \<Longrightarrow>
     GetPendingNext (ClearReferenceReferent r h) = GetPendingNext h"
  "finalizer_reference_zombie_offset (offsets h) \<noteq> reference_pendingNext_offset (offsets h) \<Longrightarrow>
     GetPendingNext (SetFinalizerReferenceZombie r z h) = GetPendingNext h"
  by (simp_all add: GetPendingNext_def SetPendingNext_def ClearReferenceReferent_def
      SetFinalizerReferenceZombie_def SetReferenceReferent_def GetFieldObject_def
      SetFieldObject_def fun_eq_iff)

lemma GetReferent_simps [simp]:
  "GetReferent (set_queue q xs h) = GetReferent h"
  "reference_referent_offset (offsets h) \<noteq> reference_pendingNext_offset (offsets h) \<Longrightarrow>
     GetReferent (SetPendingNext r v h) = GetReferent h"
  "GetReferent (ClearReferenceReferent r h) x = (if x = r then 0 else GetReferent h x)"
  "finalizer_reference_zombie_offset (offsets h) \<noteq> reference_referent_offset (offsets h) \<Longrightarrow>
     GetReferent (SetFinalizerReferenceZombie r z h) = GetReferent h"
  by (simp_all add: GetReferent_def GetReferenceReferent_def SetPendingNext_def
      ClearReferenceReferent_def SetFinalizerReferenceZombie_def SetReferenceReferent_def
      GetFieldObject_def SetFieldObject_def fun_eq_iff)

lemma enqueued_frame [simp]:
  "enqueued (SetPendingNext r v h) = enqueued h"
  "enqueued (ClearReferenceReferent r h) = enqueued h"
  "enqueued (SetFinalizerReferenceZombie r z h) = enqueued h"
  by (simp_all add: enqueued_def SetPendingNext_def ClearReferenceReferent_def
      SetFinalizerReferenceZombie_def)

lemma cleared_reference_list_get_queue: "cleared_reference_list h = get_queue ClearedList h"
  by simp

lemma UNIV_ReferenceQueue:
  "UNIV = {SoftQueue, WeakQueue, FinalizerQueue, PhantomQueue, ClearedList}"
proof (rule UNIV_eq_I)
  fix q show "q \<in> {SoftQueue, WeakQueue, FinalizerQueue, PhantomQueue, ClearedList}"
    by (cases q) simp_all
qed

lemma set_enqueued: "set (enqueued h) = (\<Union>q. set (get_queue q h))"
  unfolding UNIV_ReferenceQueue by (simp add: enqueued_def Un_assoc)

lemma mset_enqueued_set_queue:
  "mset (enqueued (set_queue q xs h)) + mset (get_queue q h) = mset (enqueued h) + mset xs"
  by (cases q) (simp_all add: enqueued_def)

lemma mset_enqueued_push:
  "mset (enqueued (set_queue q (r # get_queue q h) h)) = add_mset r (mset (enqueued h))"
  using mset_enqueued_set_queue [of q "r # get_queue q h" h] by simp

lemma mset_enqueued_pop:
  "get_queue q h = r # xs \<Longrightarrow> add_mset r (mset (enqueued (set_queue q xs h))) = mset (enqueued h)"
  using mset_enqueued_set_queue [of q xs h] by simp

lemma linked_cong: "(\<And>x. x \<in> set xs \<Longrightarrow> pn x = pn' x) \<Longrightarrow> linked pn xs = linked pn' xs"
  by (induction pn xs rule: linked.induct) auto

lemma linked_tl: "linked pn (x # xs) \<Longrightarrow> linked pn xs"
  by (cases xs) auto

lemma linked_push:
  "linked pn xs \<Longrightarrow> r \<notin> set xs \<Longrightarrow>
   linked (\<lambda>x. if x = r then (if xs = [] then r else hd xs) else pn x) (r # xs)"
proof (cases xs)
  case Nil
  then show ?thesis by simp
next
  case (Cons y ys)
  assume l: "linked pn xs" and n: "r \<notin> set xs"
  have "linked (\<lambda>x. if x = r then (if xs = [] then r else hd xs) else pn x) xs = linked pn xs"
    by (rule linked_cong) (use n in auto)
  with l Cons show ?thesis by simp
qed

subsection \<open>The queue operations keep the invariant\<close>

lemma queue_invariantD:
  assumes "queue_invariant h"
  shows "reference_referent_offset (offsets h) \<noteq> reference_pendingNext_offset (offsets h)"
    and "finalizer_reference_zombie_offset (offsets h) \<noteq> reference_pendingNext_offset (offsets h)"
    and "finalizer_reference_zombie_offset (offsets h) \<noteq> reference_referent_offset (offsets h)"
    and "distinct (enqueued h)" and "0 \<notin> set (enqueued h)"
    and "\<And>q. linked (GetPendingNext h) (get_queue q h)"
    and "\<And>ref. GetPendingNext h ref \<noteq> 0 \<longleftrightarrow> ref \<in> set (enqueued h)"
    and "\<And>ref. ref \<in> set (get_queue ClearedList h) \<Longrightarrow> GetReferent h ref = 0"
  using assms by (simp_all add: queue_invariant_def)

lemma queue_invariantI:
  assumes "reference_referent_offset (offsets h) \<noteq> reference_pendingNext_offset (offsets h)"
    and "finalizer_reference_zombie_offset (offsets h) \<noteq> reference_pendingNext_offset (offsets h)"
    and "finalizer_reference_zombie_offset (offsets h) \<noteq> reference_referent_offset (offsets h)"
    and "distinct (enqueued h)" and "0 \<notin> set (enqueued h)"
    and "\<And>q. linked (GetPendingNext h) (get_queue q h)"
    and "\<And>ref. GetPendingNext h ref \<noteq> 0 \<longleftrightarrow> ref \<in> set (enqueued h)"
    and "\<And>ref. ref \<in> set (get_queue ClearedList h) \<Longrightarrow> GetReferent h ref = 0"
  shows "queue_invariant h"
  using assms by (simp add: queue_invariant_def)

lemma get_queue_subset_enqueued: "set (get_queue q h) \<subseteq> set (enqueued h)"
  by (auto simp add: set_enqueued)

lemma queue_invariant_dequeue:
  assumes inv: "queue_invariant h" and q: "get_queue q h = r # xs"
  shows "queue_invariant (SetPendingNext r 0 (set_queue q xs h))"
    and "r \<noteq> 0" and "GetPendingNext (SetPendingNext r 0 (set_queue q xs h)) r = 0"
proof -
  let ?h = "SetPendingNext r 0 (set_queue q xs h)"
  note d = queue_invariantD [OF inv]
  have ms: "add_mset r (mset (enqueued ?h)) = mset (enqueued h)"
    using mset_enqueued_pop [OF q] by simp
  then have "mset (r # enqueued ?h) = mset (enqueued h)" by simp
  then have "distinct (r # enqueued ?h)"
    using d(4) mset_eq_imp_distinct_iff by blast
  then have dis: "distinct (enqueued ?h)" and notin: "r \<notin> set (enqueued ?h)" by simp_all
  have set_eq: "set (enqueued h) = insert r (set (enqueued ?h))"
    using ms by (metis set_mset_add_mset_insert set_mset_mset)
  from set_eq d(5) show r0: "r \<noteq> 0" by auto
  show "GetPendingNext ?h r = 0" by simp
  show "queue_invariant ?h"
  proof (rule queue_invariantI)
    show "distinct (enqueued ?h)" by (rule dis)
    show "0 \<notin> set (enqueued ?h)" using d(5) set_eq by auto
    show "linked (GetPendingNext ?h) (get_queue q' ?h)" for q'
    proof -
      have sub: "set (get_queue q' ?h) \<subseteq> set (enqueued ?h)" by (rule get_queue_subset_enqueued)
      have l: "linked (GetPendingNext h) (get_queue q' ?h)"
        using d(6) [of q'] d(6) [of q] q by (auto dest: linked_tl)
      have "linked (GetPendingNext ?h) (get_queue q' ?h) = linked (GetPendingNext h) (get_queue q' ?h)"
        by (rule linked_cong) (use sub notin in auto)
      with l show ?thesis by simp
    qed
    show "GetPendingNext ?h ref \<noteq> 0 \<longleftrightarrow> ref \<in> set (enqueued ?h)" for ref
      using d(7) [of ref] set_eq notin by auto
    show "GetReferent ?h ref = 0" if "ref \<in> set (get_queue ClearedList ?h)" for ref
    proof -
      from that q have "ref \<in> set (get_queue ClearedList h)"
        by (auto split: if_splits)
      then show ?thesis using d(8) d(1) by simp
    qed
  qed (use d in simp_all)
qed

lemma queue_invariant_DequeuePendingReference:
  assumes "queue_invariant h" and "\<not> IsEmpty q h"
      and "DequeuePendingReference q h = (ref, h1)"
  shows "queue_invariant h1" and "ref \<noteq> 0" and "GetPendingNext h1 ref = 0"
    and "ref = hd (get_queue q h)" and "get_queue q h1 = tl (get_queue q h)"
    and "\<And>q'. q' \<noteq> q \<Longrightarrow> get_queue q' h1 = get_queue q' h"
    and "arg h1 = arg h" and "GetReferent h1 = GetReferent h"
proof -
  from assms(2) obtain r xs where q: "get_queue q h = r # xs"
    by (cases "get_queue q h") (auto simp add: IsEmpty_def)
  with assms(3) have eq: "ref = r" "h1 = SetPendingNext r 0 (set_queue q xs h)"
    by (auto simp add: DequeuePendingReference_def Let_def)
  note d = queue_invariantD [OF assms(1)]
  show "queue_invariant h1" "ref \<noteq> 0" "GetPendingNext h1 ref = 0"
    using queue_invariant_dequeue [OF assms(1) q] eq by simp_all
  show "ref = hd (get_queue q h)" "get_queue q h1 = tl (get_queue q h)"
    "\<And>q'. q' \<noteq> q \<Longrightarrow> get_queue q' h1 = get_queue q' h" "arg h1 = arg h"
    using q eq by simp_all
  show "GetReferent h1 = GetReferent h" using eq d(1) by simp
qed

lemma queue_invariant_EnqueuePendingReference:
  assumes inv: "queue_invariant h" and r0: "r \<noteq> 0" and pn: "GetPendingNext h r = 0"
      and cl: "q = ClearedList \<longrightarrow> GetReferent h r = 0"
  shows "queue_invariant (EnqueuePendingReference q r h)"
proof -
  note d = queue_invariantD [OF inv]
  define v where "v = (if get_queue q h = [] then r else hd (get_queue q h))"
  let ?h = "set_queue q (r # get_queue q h) (SetPendingNext r v h)"
  have eq: "EnqueuePendingReference q r h = ?h"
    by (simp add: EnqueuePendingReference_def IsEmpty_def v_def)
  from pn d(7) have notin: "r \<notin> set (enqueued h)" by auto
  have ms: "mset (enqueued ?h) = add_mset r (mset (enqueued h))"
    using mset_enqueued_push [of q r "SetPendingNext r v h"] by simp
  then have "mset (enqueued ?h) = mset (r # enqueued h)" by simp
  then have dis: "distinct (enqueued ?h)"
    using d(4) notin mset_eq_imp_distinct_iff [of "enqueued ?h" "r # enqueued h"] by simp
  have set_eq: "set (enqueued ?h) = insert r (set (enqueued h))"
    using ms by (metis set_mset_add_mset_insert set_mset_mset)
  have v0: "v \<noteq> 0"
    using r0 d(5) get_queue_subset_enqueued [of q h]
    by (cases "get_queue q h") (auto simp add: v_def)
  have pn': "GetPendingNext ?h = (\<lambda>x. if x = r then v else GetPendingNext h x)"
    by (simp add: fun_eq_iff)
  have "queue_invariant ?h"
  proof (rule queue_invariantI)
    show "distinct (enqueued ?h)" by (rule dis)
    show "0 \<notin> set (enqueued ?h)" using set_eq d(5) r0 by auto
    show "linked (GetPendingNext ?h) (get_queue q' ?h)" for q'
    proof (cases "q' = q")
      case True
      have "r \<notin> set (get_queue q h)" using notin get_queue_subset_enqueued [of q h] by auto
      from linked_push [OF d(6) [of q] this]
      have "linked (\<lambda>x. if x = r then v else GetPendingNext h x) (r # get_queue q h)"
        by (simp only: v_def)
      moreover have "get_queue q' ?h = r # get_queue q h" using True by simp
      ultimately show ?thesis unfolding pn' by (simp only:)
    next
      case False
      have "r \<notin> set (get_queue q' h)" using notin get_queue_subset_enqueued [of q' h] by auto
      then have "linked (GetPendingNext ?h) (get_queue q' h) = linked (GetPendingNext h) (get_queue q' h)"
        unfolding pn' by (intro linked_cong) auto
      with d(6) [of q'] False show ?thesis by simp
    qed
    show "GetPendingNext ?h ref \<noteq> 0 \<longleftrightarrow> ref \<in> set (enqueued ?h)" for ref
      using d(7) [of ref] set_eq v0 unfolding pn' by auto
    show "GetReferent ?h ref = 0" if "ref \<in> set (get_queue ClearedList ?h)" for ref
      using that d(8) [of ref] d(1) cl by (auto split: if_splits)
  qed (use d in simp_all)
  with eq show ?thesis by simp
qed

lemma queue_invariant_EnqueueIfNotEnqueued:
  assumes "queue_invariant h" and "r \<noteq> 0" and "q = ClearedList \<longrightarrow> GetReferent h r = 0"
  shows "queue_invariant (EnqueueIfNotEnqueued q r h)"
proof (cases "IsEnqueued (offsets h) (object_memory h) r")
  case True
  with assms(1) show ?thesis by (simp add: EnqueueIfNotEnqueued_def)
next
  case False
  then have "GetPendingNext h r = 0" by (simp add: IsEnqueued_def GetPendingNext_def)
  from queue_invariant_EnqueuePendingReference [OF assms(1,2) this assms(3)] False
  show ?thesis by (simp add: EnqueueIfNotEnqueued_def)
qed

lemma queue_invariant_ClearReferenceReferent:
  assumes "queue_invariant h"
  shows "queue_invariant (ClearReferenceReferent r h)"
proof -
  note d = queue_invariantD [OF assms]
  show ?thesis
    by (rule queue_invariantI) (use d in \<open>simp_all add: d(1)\<close>)
qed

lemma queue_invariant_SetFinalizerReferenceZombie:
  assumes "queue_invariant h"
  shows "queue_invariant (SetFinalizerReferenceZombie r z h)"
proof -
  note d = queue_invariantD [OF assms]
  show ?thesis
    by (rule queue_invariantI) (use d in \<open>simp_all add: d(1) d(2) d(3)\<close>)
qed

lemma EnqueuePendingReference_frame:
  "get_queue q' (EnqueuePendingReference q r h) = (if q' = q then r # get_queue q h else get_queue q' h)"
  "arg (EnqueuePendingReference q r h) = arg h"
  "offsets (EnqueuePendingReference q r h) = offsets h"
  "reference_referent_offset (offsets h) \<noteq> reference_pendingNext_offset (offsets h) \<Longrightarrow>
     GetReferent (EnqueuePendingReference q r h) = GetReferent h"
  by (simp_all add: EnqueuePendingReference_def)

lemma EnqueueIfNotEnqueued_frame:
  "arg (EnqueueIfNotEnqueued q r h) = arg h"
  "offsets (EnqueueIfNotEnqueued q r h) = offsets h"
  "q' \<noteq> q \<Longrightarrow> get_queue q' (EnqueueIfNotEnqueued q r h) = get_queue q' h"
  "reference_referent_offset (offsets h) \<noteq> reference_pendingNext_offset (offsets h) \<Longrightarrow>
     GetReferent (EnqueueIfNotEnqueued q r h) = GetReferent h"
  by (simp_all add: EnqueueIfNotEnqueued_def EnqueuePendingReference_frame)

lemma DequeuePendingReference_frame:
  assumes "DequeuePendingReference q h = (ref, h1)"
  shows "ref = hd (get_queue q h)" "get_queue q h1 = tl (get_queue q h)"
    "\<And>q'. q' \<noteq> q \<Longrightarrow> get_queue q' h1 = get_queue q' h" "arg h1 = arg h" "offsets h1 = offsets h"
  using assms by (auto simp add: DequeuePendingReference_def Let_def)

subsection \<open>Clearing white references\<close>

lemma ClearWhiteReferences_step_frame:
  "arg (ClearWhiteReferences_step is_marked ref h) = arg h"
  "offsets (ClearWhiteReferences_step is_marked ref h) = offsets h"
  "q \<noteq> ClearedList \<Longrightarrow> get_queue q (ClearWhiteReferences_step is_marked ref h) = get_queue q h"
  by (simp_all add: ClearWhiteReferences_step_def Let_def EnqueuePendingReference_frame)

lemma ClearWhiteReferences_step_referent:
  assumes "reference_referent_offset (offsets h) \<noteq> reference_pendingNext_offset (offsets h)"
  shows "GetReferent (ClearWhiteReferences_step is_marked ref h) x
           = (if x = ref \<and> GetReferent h ref \<noteq> 0 \<and> is_marked (arg h) (GetReferent h ref) = 0
              then 0 else GetReferent h x)"
  using assms by (simp add: ClearWhiteReferences_step_def Let_def EnqueuePendingReference_frame)

lemma queue_invariant_ClearWhiteReferences_step:
  assumes "queue_invariant h" and "ref \<noteq> 0" and "GetPendingNext h ref = 0"
  shows "queue_invariant (ClearWhiteReferences_step is_marked ref h)"
proof -
  note d = queue_invariantD [OF assms(1)]
  have "queue_invariant (EnqueuePendingReference ClearedList ref (ClearReferenceReferent ref h))"
    by (rule queue_invariant_EnqueuePendingReference)
       (use assms d(1) in \<open>simp_all add: queue_invariant_ClearReferenceReferent\<close>)
  with assms(1) show ?thesis by (simp add: ClearWhiteReferences_step_def Let_def)
qed

lemma ClearWhiteReferences_empties:
  assumes "ClearWhiteReferences q is_marked h = Some h'"
  shows "get_queue q h' = []
       \<and> arg h' = arg h \<and> offsets h' = offsets h
       \<and> (\<forall>q'. q' \<noteq> q \<and> q' \<noteq> ClearedList \<longrightarrow> get_queue q' h' = get_queue q' h)"
proof (rule ClearWhiteReferences.raw_induct
    [where P = "\<lambda>q is_marked h h'. get_queue q h' = []
       \<and> arg h' = arg h \<and> offsets h' = offsets h
       \<and> (\<forall>q'. q' \<noteq> q \<and> q' \<noteq> ClearedList \<longrightarrow> get_queue q' h' = get_queue q' h)", OF _ assms])
  fix f q is_marked and h h' :: "'a reference_processing"
  assume IH: "\<And>q is_marked h h'. f q is_marked h = Some h' \<Longrightarrow>
      get_queue q h' = [] \<and> arg h' = arg h \<and> offsets h' = offsets h
       \<and> (\<forall>q'. q' \<noteq> q \<and> q' \<noteq> ClearedList \<longrightarrow> get_queue q' h' = get_queue q' h)"
    and run: "(if IsEmpty q h then Some h
       else case DequeuePendingReference q h of
              (ref, h1) \<Rightarrow> f q is_marked (ClearWhiteReferences_step is_marked ref h1)) = Some h'"
  show "get_queue q h' = [] \<and> arg h' = arg h \<and> offsets h' = offsets h
       \<and> (\<forall>q'. q' \<noteq> q \<and> q' \<noteq> ClearedList \<longrightarrow> get_queue q' h' = get_queue q' h)"
  proof (cases "IsEmpty q h")
    case True
    with run show ?thesis by (simp add: IsEmpty_def)
  next
    case False
    obtain ref h1 where dq: "DequeuePendingReference q h = (ref, h1)"
      by (cases "DequeuePendingReference q h")
    with run False have "f q is_marked (ClearWhiteReferences_step is_marked ref h1) = Some h'"
      by simp
    from IH [OF this] DequeuePendingReference_frame [OF dq] show ?thesis
      by (simp add: ClearWhiteReferences_step_frame)
  qed
qed

lemma ClearWhiteReferences_invariant:
  assumes "ClearWhiteReferences q is_marked h = Some h'"
  shows "queue_invariant h \<longrightarrow>
       queue_invariant h'
     \<and> (\<forall>ref \<in> set (get_queue q h).
           GetReferent h' ref = 0 \<or> is_marked (arg h) (GetReferent h' ref) \<noteq> 0)
     \<and> (\<forall>x. GetReferent h' x = 0 \<or> GetReferent h' x = GetReferent h x)"
proof (rule ClearWhiteReferences.raw_induct
    [where P = "\<lambda>q is_marked h h'. queue_invariant h \<longrightarrow>
       queue_invariant h'
     \<and> (\<forall>ref \<in> set (get_queue q h).
           GetReferent h' ref = 0 \<or> is_marked (arg h) (GetReferent h' ref) \<noteq> 0)
     \<and> (\<forall>x. GetReferent h' x = 0 \<or> GetReferent h' x = GetReferent h x)", OF _ assms])
  fix f q is_marked and h h' :: "'a reference_processing"
  assume IH: "\<And>q is_marked h h'. f q is_marked h = Some h' \<Longrightarrow>
      queue_invariant h \<longrightarrow>
       queue_invariant h'
     \<and> (\<forall>ref \<in> set (get_queue q h).
           GetReferent h' ref = 0 \<or> is_marked (arg h) (GetReferent h' ref) \<noteq> 0)
     \<and> (\<forall>x. GetReferent h' x = 0 \<or> GetReferent h' x = GetReferent h x)"
    and run: "(if IsEmpty q h then Some h
       else case DequeuePendingReference q h of
              (ref, h1) \<Rightarrow> f q is_marked (ClearWhiteReferences_step is_marked ref h1)) = Some h'"
  show "queue_invariant h \<longrightarrow>
       queue_invariant h'
     \<and> (\<forall>ref \<in> set (get_queue q h).
           GetReferent h' ref = 0 \<or> is_marked (arg h) (GetReferent h' ref) \<noteq> 0)
     \<and> (\<forall>x. GetReferent h' x = 0 \<or> GetReferent h' x = GetReferent h x)"
  proof (cases "IsEmpty q h")
    case True
    with run show ?thesis by (simp add: IsEmpty_def)
  next
    case False
    obtain ref h1 where dq: "DequeuePendingReference q h = (ref, h1)"
      by (cases "DequeuePendingReference q h")
    let ?h2 = "ClearWhiteReferences_step is_marked ref h1"
    from run False dq have f: "f q is_marked ?h2 = Some h'" by simp
    show ?thesis
    proof
      assume inv: "queue_invariant h"
      note dq' = queue_invariant_DequeuePendingReference [OF inv False dq]
      note d1 = queue_invariantD [OF dq'(1)]
      have inv2: "queue_invariant ?h2"
        using dq'(1,2,3) by (rule queue_invariant_ClearWhiteReferences_step)
      from IH [OF f] inv2 have inv': "queue_invariant h'"
        and white: "\<forall>r \<in> set (get_queue q ?h2).
           GetReferent h' r = 0 \<or> is_marked (arg ?h2) (GetReferent h' r) \<noteq> 0"
        and mono: "\<forall>x. GetReferent h' x = 0 \<or> GetReferent h' x = GetReferent ?h2 x"
        by blast+
      have ref2: "GetReferent ?h2 x
           = (if x = ref \<and> GetReferent h ref \<noteq> 0 \<and> is_marked (arg h) (GetReferent h ref) = 0
              then 0 else GetReferent h x)" for x
        using ClearWhiteReferences_step_referent [OF d1(1), of is_marked ref x] dq'(7,8) by simp
      have a2: "arg ?h2 = arg h" using dq'(7) by (simp add: ClearWhiteReferences_step_frame)
      have q2: "q \<noteq> ClearedList \<Longrightarrow> get_queue q ?h2 = tl (get_queue q h)"
        using dq'(5) by (simp add: ClearWhiteReferences_step_frame)
      have mono': "\<forall>x. GetReferent h' x = 0 \<or> GetReferent h' x = GetReferent h x"
        using mono ref2 by (metis (full_types))
      have head: "GetReferent h' ref = 0 \<or> is_marked (arg h) (GetReferent h' ref) \<noteq> 0"
        using mono [rule_format, of ref] ref2 [of ref] by (auto split: if_splits)
      have "\<forall>r \<in> set (get_queue q h).
           GetReferent h' r = 0 \<or> is_marked (arg h) (GetReferent h' r) \<noteq> 0"
      proof
        fix r assume r: "r \<in> set (get_queue q h)"
        from False have ne: "get_queue q h \<noteq> []" by (simp add: IsEmpty_def)
        show "GetReferent h' r = 0 \<or> is_marked (arg h) (GetReferent h' r) \<noteq> 0"
        proof (cases "r = ref")
          case True
          with head show ?thesis by simp
        next
          case neq: False
          with r ne dq'(4) have rt: "r \<in> set (tl (get_queue q h))"
            by (cases "get_queue q h") auto
          show ?thesis
          proof (cases "q = ClearedList")
            case True
            from r True have "GetReferent h r = 0" using queue_invariantD(8) [OF inv] by simp
            with mono' show ?thesis by metis
          next
            case False
            with rt q2 white a2 show ?thesis by auto
          qed
        qed
      qed
      with inv' mono' show "queue_invariant h'
       \<and> (\<forall>ref \<in> set (get_queue q h).
           GetReferent h' ref = 0 \<or> is_marked (arg h) (GetReferent h' ref) \<noteq> 0)
       \<and> (\<forall>x. GetReferent h' x = 0 \<or> GetReferent h' x = GetReferent h x)"
        by blast
    qed
  qed
qed

lemma ClearWhiteReferences_returns:
  assumes "q \<noteq> ClearedList"
  shows "\<exists>h'. ClearWhiteReferences q is_marked h = Some h'"
proof (induction "length (get_queue q h)" arbitrary: h)
  case 0
  then show ?case by (subst ClearWhiteReferences.simps) (simp add: IsEmpty_def)
next
  case (Suc n)
  obtain ref h1 where dq: "DequeuePendingReference q h = (ref, h1)"
    by (cases "DequeuePendingReference q h")
  have "n = length (get_queue q (ClearWhiteReferences_step is_marked ref h1))"
    using Suc.hyps(2) DequeuePendingReference_frame(2) [OF dq] assms
    by (simp add: ClearWhiteReferences_step_frame)
  from Suc.hyps(1) [OF this] dq Suc.hyps(2) show ?case
    by (subst ClearWhiteReferences.simps) (auto simp add: IsEmpty_def)
qed

subsection \<open>Finalizer references and preserved soft references\<close>

lemma keeps_queue_invariantD:
  "keeps_queue_invariant callback \<Longrightarrow> queue_invariant h \<Longrightarrow> callback obj h = (fwd, h1) \<Longrightarrow>
   queue_invariant h1"
  by (metis keeps_queue_invariant_def snd_conv)

lemma queue_invariant_EnqueueFinalizerReferences_step:
  assumes keeps: "keeps_queue_invariant recursive_mark"
      and inv: "queue_invariant h" and r0: "ref \<noteq> 0"
  shows "queue_invariant (EnqueueFinalizerReferences_step is_marked recursive_mark ref h)"
proof (cases "GetReferent h ref \<noteq> 0 \<and> is_marked (arg h) (GetReferent h ref) = 0")
  case False
  with inv show ?thesis by (auto simp add: EnqueueFinalizerReferences_step_def Let_def)
next
  case True
  obtain fwd h1 where cb: "recursive_mark (GetReferent h ref) h = (fwd, h1)"
    by (cases "recursive_mark (GetReferent h ref) h")
  have inv1: "queue_invariant h1" using keeps inv cb by (rule keeps_queue_invariantD)
  have "queue_invariant (EnqueueIfNotEnqueued ClearedList ref
          (ClearReferenceReferent ref (SetFinalizerReferenceZombie ref fwd h1)))"
    by (rule queue_invariant_EnqueueIfNotEnqueued)
       (use r0 inv1 in \<open>simp_all add: queue_invariant_ClearReferenceReferent
          queue_invariant_SetFinalizerReferenceZombie\<close>)
  with True cb show ?thesis by (simp add: EnqueueFinalizerReferences_step_def Let_def)
qed

lemma EnqueueFinalizerReferences_empties:
  assumes "EnqueueFinalizerReferences q is_marked recursive_mark h = Some h'"
  shows "get_queue q h' = []"
  by (rule EnqueueFinalizerReferences.raw_induct
        [where P = "\<lambda>q im rm h h'. get_queue q h' = []", OF _ assms])
     (auto simp add: IsEmpty_def split: if_splits prod.splits)

lemma EnqueueFinalizerReferences_invariant:
  assumes "EnqueueFinalizerReferences q is_marked recursive_mark h = Some h'"
  shows "keeps_queue_invariant recursive_mark \<longrightarrow> queue_invariant h \<longrightarrow> queue_invariant h'"
proof (rule EnqueueFinalizerReferences.raw_induct
    [where P = "\<lambda>q im rm h h'. keeps_queue_invariant rm \<longrightarrow> queue_invariant h \<longrightarrow> queue_invariant h'",
     OF _ assms])
  fix f q is_marked and recursive_mark :: "'a RootVisitor" and h h' :: "'a reference_processing"
  assume IH: "\<And>q is_marked recursive_mark h h'. f q is_marked recursive_mark h = Some h' \<Longrightarrow>
      keeps_queue_invariant recursive_mark \<longrightarrow> queue_invariant h \<longrightarrow> queue_invariant h'"
    and run: "(if IsEmpty q h then Some h
       else case DequeuePendingReference q h of
              (ref, h1) \<Rightarrow> f q is_marked recursive_mark
                 (EnqueueFinalizerReferences_step is_marked recursive_mark ref h1)) = Some h'"
  show "keeps_queue_invariant recursive_mark \<longrightarrow> queue_invariant h \<longrightarrow> queue_invariant h'"
  proof (intro impI)
    assume keeps: "keeps_queue_invariant recursive_mark" and inv: "queue_invariant h"
    show "queue_invariant h'"
    proof (cases "IsEmpty q h")
      case True
      with run inv show ?thesis by simp
    next
      case False
      obtain ref h1 where dq: "DequeuePendingReference q h = (ref, h1)"
        by (cases "DequeuePendingReference q h")
      note dq' = queue_invariant_DequeuePendingReference [OF inv False dq]
      from run False dq
      have "f q is_marked recursive_mark
              (EnqueueFinalizerReferences_step is_marked recursive_mark ref h1) = Some h'"
        by simp
      from IH [OF this] keeps
        queue_invariant_EnqueueFinalizerReferences_step [OF keeps dq'(1,2)]
      show ?thesis by blast
    qed
  qed
qed

lemma EnqueueFinalizerReferences_returns:
  assumes keep: "\<And>obj s. get_queue q (snd (recursive_mark obj s)) = get_queue q s"
      and q: "q \<noteq> ClearedList"
  shows "\<exists>h'. EnqueueFinalizerReferences q is_marked recursive_mark h = Some h'"
proof (induction "length (get_queue q h)" arbitrary: h)
  case 0
  then show ?case by (subst EnqueueFinalizerReferences.simps) (simp add: IsEmpty_def)
next
  case (Suc n)
  obtain ref h1 where dq: "DequeuePendingReference q h = (ref, h1)"
    by (cases "DequeuePendingReference q h")
  have "get_queue q (EnqueueFinalizerReferences_step is_marked recursive_mark ref h1)
          = get_queue q h1"
    using keep [of "GetReferent h1 ref" h1] q
    by (auto simp add: EnqueueFinalizerReferences_step_def Let_def EnqueueIfNotEnqueued_frame
        split: prod.splits)
  then have "n = length (get_queue q (EnqueueFinalizerReferences_step is_marked recursive_mark ref h1))"
    using Suc.hyps(2) DequeuePendingReference_frame(2) [OF dq] by simp
  from Suc.hyps(1) [OF this] dq Suc.hyps(2) show ?case
    by (subst EnqueueFinalizerReferences.simps) (auto simp add: IsEmpty_def)
qed

lemma queue_invariant_PreserveSomeSoftReferences_loop:
  "keeps_queue_invariant preserve_callback \<Longrightarrow> queue_invariant h \<Longrightarrow>
   queue_invariant (PreserveSomeSoftReferences_loop preserve_callback refs h)"
proof (induction refs arbitrary: h)
  case Nil
  then show ?case by simp
next
  case (Cons ref refs)
  have "queue_invariant (let referent = GetReferent h ref in
        if referent \<noteq> 0 then snd (preserve_callback referent h) else h)"
    using Cons.prems by (simp add: Let_def keeps_queue_invariant_def)
  from Cons.IH [OF Cons.prems(1) this] show ?case by simp
qed

lemma queue_invariant_ProcessReferences_preserve:
  assumes "keeps_queue_invariant recursive_mark" and "queue_invariant h"
  shows "queue_invariant (ProcessReferences_preserve is_zygote clear_soft is_marked recursive_mark h)"
proof -
  have "keeps_queue_invariant (PreserveSoftReferenceCallback
          \<lparr>args_is_marked_callback = is_marked, args_recursive_mark_callback = recursive_mark\<rparr>)"
    using assms(1) by (simp add: keeps_queue_invariant_def PreserveSoftReferenceCallback_def)
  then show ?thesis
    using assms(2)
    by (simp add: ProcessReferences_preserve_def PreserveSomeSoftReferences_def Let_def
        queue_invariant_PreserveSomeSoftReferences_loop)
qed

subsection \<open>\<^verbatim>\<open>DelayReferenceReferent\<close> keeps the invariant\<close>

lemma arg_update_frame:
  "get_queue q (h\<lparr>arg := a\<rparr>) = get_queue q h"
  "GetPendingNext (h\<lparr>arg := a\<rparr>) = GetPendingNext h"
  "GetReferent (h\<lparr>arg := a\<rparr>) = GetReferent h"
  "enqueued (h\<lparr>arg := a\<rparr>) = enqueued h"
  by (cases q) (simp_all add: GetPendingNext_def GetReferent_def enqueued_def fun_eq_iff)

lemma queue_invariant_arg_update:
  "queue_invariant (h\<lparr>arg := a\<rparr>) = queue_invariant h"
  by (simp add: queue_invariant_def arg_update_frame)

lemma queue_invariant_DelayReferenceReferent:
  assumes inv: "queue_invariant h" and obj: "obj \<noteq> 0"
      and run: "DelayReferenceReferent dbg klass obj mark_visitor h = Ret h'"
  shows "queue_invariant h'"
proof -
  note d = queue_invariantD [OF inv]
  show ?thesis
  proof (cases "GetReferent h obj = 0")
    case True
    with run inv obj show ?thesis by (simp add: DelayReferenceReferent_def)
  next
    case ref: False
    show ?thesis
    proof (cases "mark_visitor (arg h) (GetReferent h obj) = 0")
      case True
      with run ref obj have "\<exists>q. q \<noteq> ClearedList \<and> h' = EnqueueIfNotEnqueued q obj h"
        by (cases klass) (auto simp add: DelayReferenceReferent_def Let_def)
      then show ?thesis
        using queue_invariant_EnqueueIfNotEnqueued [OF inv obj] by auto
    next
      case False
      let ?h = "h\<lparr>object_memory := SetReferenceReferent (offsets h) obj
                  (mark_visitor (arg h) (GetReferent h obj)) (object_memory h)\<rparr>"
      from run ref obj False have h': "h' = h \<or> h' = ?h"
        by (auto simp add: DelayReferenceReferent_def Let_def split: if_splits)
      have notcl: "obj \<notin> set (get_queue ClearedList h)" using d(8) [of obj] ref by auto
      have pn: "GetPendingNext ?h = GetPendingNext h"
        using d(1) by (simp add: GetPendingNext_def SetReferenceReferent_def GetFieldObject_def
            SetFieldObject_def fun_eq_iff)
      have rf: "GetReferent ?h x = (if x = obj then mark_visitor (arg h) (GetReferent h obj)
                                    else GetReferent h x)" for x
        by (simp add: GetReferent_def GetReferenceReferent_def SetReferenceReferent_def
            GetFieldObject_def SetFieldObject_def)
      have gq: "get_queue q ?h = get_queue q h" for q by (cases q) simp_all
      have en: "enqueued ?h = enqueued h" by (simp add: enqueued_def)
      have "queue_invariant ?h"
        by (rule queue_invariantI) (use d notcl in \<open>auto simp add: pn rf gq en\<close>)
      with h' inv show ?thesis by auto
    qed
  qed
qed

subsection \<open>Reference processing\<close>

lemma ProcessReferences_checks_pass:
  "get_queue SoftQueue h = [] \<Longrightarrow> get_queue WeakQueue h = [] \<Longrightarrow>
   get_queue FinalizerQueue h = [] \<Longrightarrow> get_queue PhantomQueue h = [] \<Longrightarrow>
   ProcessReferences_checks dbg h = Ret ()"
  by (simp add: ProcessReferences_checks_def IsEmpty_def del: get_queue.simps)

lemma ClearWhiteReferences_other:
  assumes "ClearWhiteReferences q is_marked h = Some h'" and "q' \<noteq> q" and "q' \<noteq> ClearedList"
  shows "get_queue q' h' = get_queue q' h"
  using ClearWhiteReferences_empties [OF assms(1)] assms(2,3) by blast

lemma ClearWhiteReferences_arg:
  assumes "ClearWhiteReferences q is_marked h = Some h'"
  shows "arg h' = arg h"
  using ClearWhiteReferences_empties [OF assms(1)] by blast

lemma result_unit_case: "(case x of Fatal msg \<Rightarrow> Fatal msg | Ret u \<Rightarrow> Ret ()) = (x :: unit result)"
  by (cases x) simp_all

lemma ProcessReferences_SomeE:
  assumes "ProcessReferences dbg is_zygote clear_soft is_marked recursive_mark h
             = Some (r, splits, h')"
  obtains h2 h3 h4 h5 h6 where
    "ClearWhiteReferences SoftQueue is_marked
       (ProcessReferences_preserve is_zygote clear_soft is_marked recursive_mark h) = Some h2"
    "ClearWhiteReferences WeakQueue is_marked h2 = Some h3"
    "EnqueueFinalizerReferences FinalizerQueue is_marked recursive_mark h3 = Some h4"
    "ClearWhiteReferences SoftQueue is_marked h4 = Some h5"
    "ClearWhiteReferences WeakQueue is_marked h5 = Some h6"
    "ClearWhiteReferences PhantomQueue is_marked h6 = Some h'"
    "r = ProcessReferences_checks dbg h'"
proof -
  from assms obtain h2 h3 h4 h5 h6 h7 where s:
    "ClearWhiteReferences SoftQueue is_marked
       (ProcessReferences_preserve is_zygote clear_soft is_marked recursive_mark h) = Some h2"
    "ClearWhiteReferences WeakQueue is_marked h2 = Some h3"
    "EnqueueFinalizerReferences FinalizerQueue is_marked recursive_mark h3 = Some h4"
    "ClearWhiteReferences SoftQueue is_marked h4 = Some h5"
    "ClearWhiteReferences WeakQueue is_marked h5 = Some h6"
    "ClearWhiteReferences PhantomQueue is_marked h6 = Some h7"
    and fin: "(case ProcessReferences_checks dbg h7 of
            Fatal msg \<Rightarrow> Some (Fatal msg, [StartSplit ''ProcessReferences'', EndSplit,
                     StartSplit ''EnqueueFinalizerReferences'', EndSplit,
                     StartSplit ''ProcessReferences''], h7)
          | Ret u \<Rightarrow> Some (Ret (), [StartSplit ''ProcessReferences'', EndSplit,
                     StartSplit ''EnqueueFinalizerReferences'', EndSplit,
                     StartSplit ''ProcessReferences''] @ [EndSplit], h7)) = Some (r, splits, h')"
    unfolding ProcessReferences_def Let_def bind_eq_Some_conv by blast
  from fin have "h7 = h'" "r = ProcessReferences_checks dbg h7"
    by (cases "ProcessReferences_checks dbg h7"; simp)+
  with s that show thesis by blast
qed

lemma ProcessReferences_empties:
  assumes "ClearWhiteReferences SoftQueue is_marked h4 = Some h5"
    "ClearWhiteReferences WeakQueue is_marked h5 = Some h6"
    "ClearWhiteReferences PhantomQueue is_marked h6 = Some h'"
    "get_queue FinalizerQueue h4 = []"
  shows "get_queue SoftQueue h' = []" "get_queue WeakQueue h' = []"
    "get_queue FinalizerQueue h' = []" "get_queue PhantomQueue h' = []"
    "arg h' = arg h4"
proof -
  note e = ClearWhiteReferences_empties [OF assms(1)] ClearWhiteReferences_empties [OF assms(2)]
    ClearWhiteReferences_empties [OF assms(3)]
  note o = ClearWhiteReferences_other [OF assms(1)] ClearWhiteReferences_other [OF assms(2)]
    ClearWhiteReferences_other [OF assms(3)]
  show "get_queue SoftQueue h' = []" using e(1) o(2) [of SoftQueue] o(3) [of SoftQueue] by simp
  show "get_queue WeakQueue h' = []" using e(2) o(3) [of WeakQueue] by simp
  show "get_queue FinalizerQueue h' = []"
    using assms(4) o(1) [of FinalizerQueue] o(2) [of FinalizerQueue] o(3) [of FinalizerQueue]
    by simp
  show "get_queue PhantomQueue h' = []" using e(3) by simp
  show "arg h' = arg h4" using e by simp
qed

lemma ProcessReferences_queue_invariant:
  assumes inv: "queue_invariant h" and keeps: "keeps_queue_invariant recursive_mark"
      and run: "ProcessReferences dbg is_zygote clear_soft is_marked recursive_mark h
                  = Some (r, splits, h')"
  shows "queue_invariant h'"
proof -
  from run obtain h2 h3 h4 h5 h6 where s:
    "ClearWhiteReferences SoftQueue is_marked
       (ProcessReferences_preserve is_zygote clear_soft is_marked recursive_mark h) = Some h2"
    "ClearWhiteReferences WeakQueue is_marked h2 = Some h3"
    "EnqueueFinalizerReferences FinalizerQueue is_marked recursive_mark h3 = Some h4"
    "ClearWhiteReferences SoftQueue is_marked h4 = Some h5"
    "ClearWhiteReferences WeakQueue is_marked h5 = Some h6"
    "ClearWhiteReferences PhantomQueue is_marked h6 = Some h'"
    by (rule ProcessReferences_SomeE)
  have "queue_invariant (ProcessReferences_preserve is_zygote clear_soft is_marked recursive_mark h)"
    using keeps inv by (rule queue_invariant_ProcessReferences_preserve)
  then have "queue_invariant h2" using ClearWhiteReferences_invariant [OF s(1)] by blast
  then have "queue_invariant h3" using ClearWhiteReferences_invariant [OF s(2)] by blast
  then have "queue_invariant h4" using EnqueueFinalizerReferences_invariant [OF s(3)] keeps by blast
  then have "queue_invariant h5" using ClearWhiteReferences_invariant [OF s(4)] by blast
  then have "queue_invariant h6" using ClearWhiteReferences_invariant [OF s(5)] by blast
  then show "queue_invariant h'" using ClearWhiteReferences_invariant [OF s(6)] by blast
qed

lemma ProcessReferences_returns:
  assumes "\<And>obj s. finalizer_reference_queue (snd (recursive_mark obj s))
                      = finalizer_reference_queue s"
  shows "\<exists>y. ProcessReferences dbg is_zygote clear_soft is_marked recursive_mark h = Some y"
proof -
  let ?h1 = "ProcessReferences_preserve is_zygote clear_soft is_marked recursive_mark h"
  obtain h2 where 2: "ClearWhiteReferences SoftQueue is_marked ?h1 = Some h2"
    using ClearWhiteReferences_returns [of SoftQueue is_marked ?h1] by auto
  obtain h3 where 3: "ClearWhiteReferences WeakQueue is_marked h2 = Some h3"
    using ClearWhiteReferences_returns [of WeakQueue is_marked h2] by auto
  from assms have "\<And>obj s. get_queue FinalizerQueue (snd (recursive_mark obj s))
      = get_queue FinalizerQueue s"
    by simp
  from EnqueueFinalizerReferences_returns [of FinalizerQueue recursive_mark is_marked h3, OF this]
  obtain h4 where 4: "EnqueueFinalizerReferences FinalizerQueue is_marked recursive_mark h3 = Some h4"
    by auto
  obtain h5 where 5: "ClearWhiteReferences SoftQueue is_marked h4 = Some h5"
    using ClearWhiteReferences_returns [of SoftQueue is_marked h4] by auto
  obtain h6 where 6: "ClearWhiteReferences WeakQueue is_marked h5 = Some h6"
    using ClearWhiteReferences_returns [of WeakQueue is_marked h5] by auto
  obtain h7 where 7: "ClearWhiteReferences PhantomQueue is_marked h6 = Some h7"
    using ClearWhiteReferences_returns [of PhantomQueue is_marked h6] by auto
  show ?thesis
    using 2 3 4 5 6 7 by (simp add: ProcessReferences_def Let_def split: result.split)
qed

subsection \<open>A run of reference processing\<close>

lemma all_ReferenceQueue:
  "(\<forall>q. P q) \<longleftrightarrow> P SoftQueue \<and> P WeakQueue \<and> P FinalizerQueue \<and> P PhantomQueue \<and> P ClearedList"
  by (metis ReferenceQueue.exhaust)

lemma queue_invariant_references0: "queue_invariant references0"
  by (auto simp add: queue_invariant_def all_ReferenceQueue references0_def enqueued_def
      GetPendingNext_def GetReferent_def GetReferenceReferent_def GetFieldObject_def memory1_def
      offsets0_def split: if_splits)

lemma keeps_queue_invariant_recursive_mark0: "keeps_queue_invariant recursive_mark0"
  unfolding keeps_queue_invariant_def
proof (intro allI impI)
  fix obj and h :: "obj list reference_processing"
  assume inv: "queue_invariant h"
  let ?h1 = "h\<lparr>arg := obj # arg h\<rparr>"
  have inv1: "queue_invariant ?h1" using inv by (simp add: queue_invariant_arg_update)
  show "queue_invariant (snd (recursive_mark0 obj h))"
  proof (cases "DelayReferenceReferent True WeakReferenceClass 0x140 is_marked0 ?h1")
    case (Fatal msg)
    with inv1 show ?thesis by (auto simp add: recursive_mark0_def Let_def)
  next
    case (Ret h2)
    have "queue_invariant h2"
      by (rule queue_invariant_DelayReferenceReferent [OF inv1 _ Ret]) simp
    with Ret inv1 show ?thesis by (auto simp add: recursive_mark0_def Let_def)
  qed
qed

lemma recursive_mark0_finalizer_queue:
  "finalizer_reference_queue (snd (recursive_mark0 obj s)) = finalizer_reference_queue s"
  by (simp add: recursive_mark0_def Let_def DelayReferenceReferent_def
      EnqueueIfNotEnqueued_def EnqueuePendingReference_def SetPendingNext_def)

lemma ProcessReferences_references0:
  "\<exists>h'. ProcessReferences True False False is_marked0 recursive_mark0 references0
     = Some (Ret (),
         [StartSplit ''ProcessReferences'', EndSplit,
          StartSplit ''EnqueueFinalizerReferences'', EndSplit,
          StartSplit ''ProcessReferences'', EndSplit], h')
     \<and> cleared_reference_list h' = [0x130, 0x140, 0x120]
     \<and> arg h' = [0x220, 0x200, 0x210]
     \<and> GetReferent h' 0x100 = 0x200 \<and> GetReferent h' 0x110 = 0x210
     \<and> GetReferent h' 0x120 = 0 \<and> GetReferent h' 0x130 = 0 \<and> GetReferent h' 0x140 = 0
     \<and> GetFieldObject (object_memory h') 0x120 (finalizer_reference_zombie_offset (offsets h'))
         = 0x220
     \<and> GetPendingNext h' 0x100 = 0 \<and> GetPendingNext h' 0x110 = 0
     \<and> GetPendingNext h' 0x130 = 0x140 \<and> GetPendingNext h' 0x140 = 0x120
     \<and> GetPendingNext h' 0x120 = 0x120
     \<and> offsets h' = offsets0
     \<and> GetFieldObject (object_memory h') 0x100 (reference_queue_offset offsets0) = 0
     \<and> GetFieldObject (object_memory h') 0x100 (reference_queueNext_offset offsets0) = 0
     \<and> GetFieldObject (object_memory h') 0x110 (reference_queue_offset offsets0) = 0x900
     \<and> GetFieldObject (object_memory h') 0x110 (reference_queueNext_offset offsets0) = 0"
  by (simp add: ProcessReferences_def ProcessReferences_preserve_def ProcessReferences_checks_def
      IsEmpty_def PreserveSomeSoftReferences_def PreserveSoftReferenceCallback_def
      ClearWhiteReferences.simps ClearWhiteReferences_step_def
      EnqueueFinalizerReferences.simps EnqueueFinalizerReferences_step_def
      DequeuePendingReference_def EnqueuePendingReference_def EnqueueIfNotEnqueued_def
      IsEnqueued_def DelayReferenceReferent_def
      SetPendingNext_def ClearReferenceReferent_def SetFinalizerReferenceZombie_def
      GetPendingNext_def GetReferent_def
      GetReferenceReferent_def SetReferenceReferent_def GetFieldObject_def SetFieldObject_def
      references0_def memory1_def offsets0_def is_marked0_def recursive_mark0_def Let_def)

subsection \<open>Order of reference processing\<close>

text \<open>C2: a run of \<^verbatim>\<open>ProcessReferences\<close> that returns has gone through these steps, each
  from the state that the step before left: the soft-reference preserve callback over the
  soft queue, if and only if the cycle is not soft-clearing and the runtime is not the
  zygote; clearing the white soft references; clearing the white weak references;
  enqueuing the finalizer references, with the marking callback on their referents;
  clearing the white soft and the white weak references again; clearing the white phantom
  references. It returns normally, also in a debug build, and the soft, weak, finalizer
  and phantom queues are then empty. From a state whose queues are threaded through
  \<open>pendingNext\<close>, with a marking callback that keeps them so, every reference that was on
  the soft, weak or phantom queue after the finalizer step ends with a null or a marked
  referent, the queues are still in order, and every reference on the cleared list has a
  null referent and a non-null \<open>pendingNext\<close>.\<close>

theorem ProcessReferences_order_and_queues:
  assumes run: "ProcessReferences dbg is_zygote clear_soft is_marked recursive_mark h
                  = Some (r, splits, h')"
  shows "r = Ret ()
    \<and> (\<exists>h1 h2 h3 h4 h5 h6.
          h1 = (if \<not> clear_soft \<and> \<not> is_zygote
                then PreserveSomeSoftReferences SoftQueue
                       (PreserveSoftReferenceCallback
                          \<lparr>args_is_marked_callback = is_marked,
                           args_recursive_mark_callback = recursive_mark\<rparr>) h
                else h)
        \<and> ClearWhiteReferences SoftQueue is_marked h1 = Some h2
        \<and> ClearWhiteReferences WeakQueue is_marked h2 = Some h3
        \<and> EnqueueFinalizerReferences FinalizerQueue is_marked recursive_mark h3 = Some h4
        \<and> ClearWhiteReferences SoftQueue is_marked h4 = Some h5
        \<and> ClearWhiteReferences WeakQueue is_marked h5 = Some h6
        \<and> ClearWhiteReferences PhantomQueue is_marked h6 = Some h'
        \<and> (queue_invariant h \<and> keeps_queue_invariant recursive_mark \<longrightarrow>
             (\<forall>ref \<in> set (soft_reference_queue h4) \<union> set (weak_reference_queue h4)
                       \<union> set (phantom_reference_queue h4).
                GetReferent h' ref = 0 \<or> is_marked (arg h') (GetReferent h' ref) \<noteq> 0)))
    \<and> soft_reference_queue h' = [] \<and> weak_reference_queue h' = []
    \<and> finalizer_reference_queue h' = [] \<and> phantom_reference_queue h' = []
    \<and> (queue_invariant h \<and> keeps_queue_invariant recursive_mark \<longrightarrow>
         queue_invariant h'
       \<and> (\<forall>ref \<in> set (cleared_reference_list h').
            GetReferent h' ref = 0 \<and> GetPendingNext h' ref \<noteq> 0))"
proof -
  let ?h1 = "ProcessReferences_preserve is_zygote clear_soft is_marked recursive_mark h"
  from run obtain h2 h3 h4 h5 h6 where s:
    "ClearWhiteReferences SoftQueue is_marked ?h1 = Some h2"
    "ClearWhiteReferences WeakQueue is_marked h2 = Some h3"
    "EnqueueFinalizerReferences FinalizerQueue is_marked recursive_mark h3 = Some h4"
    "ClearWhiteReferences SoftQueue is_marked h4 = Some h5"
    "ClearWhiteReferences WeakQueue is_marked h5 = Some h6"
    "ClearWhiteReferences PhantomQueue is_marked h6 = Some h'"
    and r: "r = ProcessReferences_checks dbg h'"
    by (rule ProcessReferences_SomeE)
  have h1: "?h1 = (if \<not> clear_soft \<and> \<not> is_zygote
                then PreserveSomeSoftReferences SoftQueue
                       (PreserveSoftReferenceCallback
                          \<lparr>args_is_marked_callback = is_marked,
                           args_recursive_mark_callback = recursive_mark\<rparr>) h
                else h)"
    by (simp add: ProcessReferences_preserve_def Let_def)
  have fin: "get_queue FinalizerQueue h4 = []"
    using s(3) by (rule EnqueueFinalizerReferences_empties)
  note e = ProcessReferences_empties [OF s(4,5,6) fin]
  have ret: "r = Ret ()"
    unfolding r by (rule ProcessReferences_checks_pass) (rule e)+
  have a: "arg h5 = arg h4" "arg h6 = arg h5" "arg h' = arg h6"
    using ClearWhiteReferences_arg [OF s(4)] ClearWhiteReferences_arg [OF s(5)]
      ClearWhiteReferences_arg [OF s(6)] by simp_all
  have q5: "get_queue WeakQueue h5 = get_queue WeakQueue h4"
      "get_queue PhantomQueue h5 = get_queue PhantomQueue h4"
    using ClearWhiteReferences_other [OF s(4), of WeakQueue]
      ClearWhiteReferences_other [OF s(4), of PhantomQueue] by simp_all
  have q6: "get_queue PhantomQueue h6 = get_queue PhantomQueue h5"
    using ClearWhiteReferences_other [OF s(5), of PhantomQueue] by simp
  have white: "\<forall>ref \<in> set (soft_reference_queue h4) \<union> set (weak_reference_queue h4)
                       \<union> set (phantom_reference_queue h4).
                GetReferent h' ref = 0 \<or> is_marked (arg h') (GetReferent h' ref) \<noteq> 0"
    and inv': "queue_invariant h'"
    if inv: "queue_invariant h" and keeps: "keeps_queue_invariant recursive_mark"
  proof -
    have "queue_invariant ?h1"
      using keeps inv by (rule queue_invariant_ProcessReferences_preserve)
    then have "queue_invariant h2" using ClearWhiteReferences_invariant [OF s(1)] by blast
    then have "queue_invariant h3" using ClearWhiteReferences_invariant [OF s(2)] by blast
    then have i4: "queue_invariant h4"
      using EnqueueFinalizerReferences_invariant [OF s(3)] keeps by blast
    note c5 = ClearWhiteReferences_invariant [OF s(4), rule_format, OF i4]
    from c5 have i5: "queue_invariant h5" by blast
    note c6 = ClearWhiteReferences_invariant [OF s(5), rule_format, OF i5]
    from c6 have i6: "queue_invariant h6" by blast
    note c7 = ClearWhiteReferences_invariant [OF s(6), rule_format, OF i6]
    from c7 show "queue_invariant h'" by blast
    have m6: "\<And>x. GetReferent h6 x = 0 \<or> GetReferent h6 x = GetReferent h5 x" using c6 by blast
    have m7: "\<And>x. GetReferent h' x = 0 \<or> GetReferent h' x = GetReferent h6 x" using c7 by blast
    show "\<forall>ref \<in> set (soft_reference_queue h4) \<union> set (weak_reference_queue h4)
                       \<union> set (phantom_reference_queue h4).
                GetReferent h' ref = 0 \<or> is_marked (arg h') (GetReferent h' ref) \<noteq> 0"
    proof
      fix ref
      assume "ref \<in> set (soft_reference_queue h4) \<union> set (weak_reference_queue h4)
                       \<union> set (phantom_reference_queue h4)"
      then consider "ref \<in> set (get_queue SoftQueue h4)" | "ref \<in> set (get_queue WeakQueue h5)"
        | "ref \<in> set (get_queue PhantomQueue h6)"
        using q5 q6 by auto
      then show "GetReferent h' ref = 0 \<or> is_marked (arg h') (GetReferent h' ref) \<noteq> 0"
      proof cases
        case 1
        with c5 have "GetReferent h5 ref = 0 \<or> is_marked (arg h4) (GetReferent h5 ref) \<noteq> 0"
          by blast
        with m6 [of ref] m7 [of ref] a show ?thesis by metis
      next
        case 2
        with c6 have "GetReferent h6 ref = 0 \<or> is_marked (arg h5) (GetReferent h6 ref) \<noteq> 0"
          by blast
        with m7 [of ref] a show ?thesis by metis
      next
        case 3
        with c7 have "GetReferent h' ref = 0 \<or> is_marked (arg h6) (GetReferent h' ref) \<noteq> 0"
          by blast
        with a show ?thesis by metis
      qed
    qed
  qed
  have cleared: "\<forall>ref \<in> set (cleared_reference_list h').
            GetReferent h' ref = 0 \<and> GetPendingNext h' ref \<noteq> 0"
    if "queue_invariant h'"
    using queue_invariantD(7,8) [OF that] get_queue_subset_enqueued [of ClearedList h'] by auto
  have e': "soft_reference_queue h' = []" "weak_reference_queue h' = []"
      "finalizer_reference_queue h' = []" "phantom_reference_queue h' = []"
    using e by simp_all
  have chain: "\<exists>h1 h2 h3 h4 h5 h6.
          h1 = (if \<not> clear_soft \<and> \<not> is_zygote
                then PreserveSomeSoftReferences SoftQueue
                       (PreserveSoftReferenceCallback
                          \<lparr>args_is_marked_callback = is_marked,
                           args_recursive_mark_callback = recursive_mark\<rparr>) h
                else h)
        \<and> ClearWhiteReferences SoftQueue is_marked h1 = Some h2
        \<and> ClearWhiteReferences WeakQueue is_marked h2 = Some h3
        \<and> EnqueueFinalizerReferences FinalizerQueue is_marked recursive_mark h3 = Some h4
        \<and> ClearWhiteReferences SoftQueue is_marked h4 = Some h5
        \<and> ClearWhiteReferences WeakQueue is_marked h5 = Some h6
        \<and> ClearWhiteReferences PhantomQueue is_marked h6 = Some h'
        \<and> (queue_invariant h \<and> keeps_queue_invariant recursive_mark \<longrightarrow>
             (\<forall>ref \<in> set (soft_reference_queue h4) \<union> set (weak_reference_queue h4)
                       \<union> set (phantom_reference_queue h4).
                GetReferent h' ref = 0 \<or> is_marked (arg h') (GetReferent h' ref) \<noteq> 0))"
    apply (rule exI [of _ ?h1], rule exI [of _ h2], rule exI [of _ h3], rule exI [of _ h4],
        rule exI [of _ h5], rule exI [of _ h6])
    using h1 s white by blast
  have last: "queue_invariant h \<and> keeps_queue_invariant recursive_mark \<longrightarrow>
         queue_invariant h'
       \<and> (\<forall>ref \<in> set (cleared_reference_list h').
            GetReferent h' ref = 0 \<and> GetPendingNext h' ref \<noteq> 0)"
    using inv' cleared by blast
  from ret chain e' last show ?thesis by blast
qed

theorem ProcessReferences_order_and_queues_witness:
  "queue_invariant references0 \<and> keeps_queue_invariant recursive_mark0
   \<and> (\<exists>h'. ProcessReferences True False False is_marked0 recursive_mark0 references0
        = Some (Ret (),
           [StartSplit ''ProcessReferences'', EndSplit,
            StartSplit ''EnqueueFinalizerReferences'', EndSplit,
            StartSplit ''ProcessReferences'', EndSplit], h')
      \<and> cleared_reference_list h' = [0x130, 0x140, 0x120]
      \<and> arg h' = [0x220, 0x200, 0x210]
      \<and> GetReferent h' 0x100 = 0x200 \<and> GetReferent h' 0x110 = 0x210
      \<and> GetReferent h' 0x120 = 0 \<and> GetReferent h' 0x130 = 0 \<and> GetReferent h' 0x140 = 0
      \<and> soft_reference_queue h' = [] \<and> weak_reference_queue h' = []
      \<and> finalizer_reference_queue h' = [] \<and> phantom_reference_queue h' = []
      \<and> queue_invariant h')"
proof -
  from ProcessReferences_references0 obtain h' where
    run: "ProcessReferences True False False is_marked0 recursive_mark0 references0
        = Some (Ret (),
           [StartSplit ''ProcessReferences'', EndSplit,
            StartSplit ''EnqueueFinalizerReferences'', EndSplit,
            StartSplit ''ProcessReferences'', EndSplit], h')"
    and f: "cleared_reference_list h' = [0x130, 0x140, 0x120]"
      "arg h' = [0x220, 0x200, 0x210]"
      "GetReferent h' 0x100 = 0x200" "GetReferent h' 0x110 = 0x210"
      "GetReferent h' 0x120 = 0" "GetReferent h' 0x130 = 0" "GetReferent h' 0x140 = 0"
    by blast
  from ProcessReferences_order_and_queues [OF run] queue_invariant_references0 keeps_queue_invariant_recursive_mark0
  have "soft_reference_queue h' = [] \<and> weak_reference_queue h' = []
      \<and> finalizer_reference_queue h' = [] \<and> phantom_reference_queue h' = []
      \<and> queue_invariant h'"
    by blast
  with run f queue_invariant_references0 keeps_queue_invariant_recursive_mark0
  show ?thesis by blast
qed

subsection \<open>Reference fields\<close>

text \<open>C9, as the claim states it, fails in its second half. At the end of reference
  processing of four queued references, the soft reference \<open>0x100\<close>, which was created
  without a queue, has a null \<open>queueNext\<close> field and is not enqueuable.\<close>

theorem IsEnqueuable_without_queue_counterexample:
  "\<exists>h'. ProcessReferences True False False is_marked0 recursive_mark0 references0
     = Some (Ret (),
         [StartSplit ''ProcessReferences'', EndSplit,
          StartSplit ''EnqueueFinalizerReferences'', EndSplit,
          StartSplit ''ProcessReferences'', EndSplit], h')
     \<and> GetFieldObject (object_memory h') 0x100 (reference_queueNext_offset (offsets h')) = 0
     \<and> IsEnqueuable True (offsets h') (object_memory h') 0x100 = Ret False"
proof -
  from ProcessReferences_references0 obtain h' where
    run: "ProcessReferences True False False is_marked0 recursive_mark0 references0
        = Some (Ret (),
           [StartSplit ''ProcessReferences'', EndSplit,
            StartSplit ''EnqueueFinalizerReferences'', EndSplit,
            StartSplit ''ProcessReferences'', EndSplit], h')"
    and f: "offsets h' = offsets0"
      "GetFieldObject (object_memory h') 0x100 (reference_queue_offset offsets0) = 0"
      "GetFieldObject (object_memory h') 0x100 (reference_queueNext_offset offsets0) = 0"
    by blast
  from f have "IsEnqueuable True (offsets h') (object_memory h') 0x100 = Ret False"
    by (simp add: IsEnqueuable_def)
  with run f show ?thesis by auto
qed

text \<open>C9, amended. For every reference object at the end of reference processing (a run
  of \<^verbatim>\<open>ProcessReferences\<close> from a state whose queues are threaded through \<open>pendingNext\<close>,
  with a marking callback that keeps them so), its \<open>pendingNext\<close> field is null if and only
  if the reference is in none of the queues: the soft, weak, finalizer and phantom queues
  and the list of cleared references. It is enqueuable if and only if its \<open>queue\<close> field is
  non-null and its \<open>queueNext\<close> field is null; so for a reference that has a queue,
  \<open>queueNext\<close> is null if and only if the reference is still enqueuable.\<close>

theorem reference_fields_enqueued_enqueuable:
  assumes "queue_invariant h" and "keeps_queue_invariant recursive_mark"
      and "ProcessReferences dbg is_zygote clear_soft is_marked recursive_mark h
             = Some (r, splits, h')"
  shows "(\<forall>ref. GetFieldObject (object_memory h') ref (reference_pendingNext_offset (offsets h')) = 0
            \<longleftrightarrow> ref \<notin> set (soft_reference_queue h') \<union> set (weak_reference_queue h')
                      \<union> set (finalizer_reference_queue h') \<union> set (phantom_reference_queue h')
                      \<union> set (cleared_reference_list h'))
       \<and> (\<forall>ref. ref \<noteq> 0 \<longrightarrow>
            IsEnqueuable debug (offsets h') (object_memory h') ref
              = Ret (GetFieldObject (object_memory h') ref (reference_queue_offset (offsets h')) \<noteq> 0
                   \<and> GetFieldObject (object_memory h') ref
                        (reference_queueNext_offset (offsets h')) = 0))
       \<and> (\<forall>ref. ref \<noteq> 0
              \<and> GetFieldObject (object_memory h') ref (reference_queue_offset (offsets h')) \<noteq> 0 \<longrightarrow>
            (GetFieldObject (object_memory h') ref (reference_queueNext_offset (offsets h')) = 0
               \<longleftrightarrow> IsEnqueuable debug (offsets h') (object_memory h') ref = Ret True))"
proof -
  have "queue_invariant h'" using assms by (rule ProcessReferences_queue_invariant)
  from queue_invariantD(7) [OF this]
  have "\<forall>ref. GetFieldObject (object_memory h') ref (reference_pendingNext_offset (offsets h')) = 0
            \<longleftrightarrow> ref \<notin> set (soft_reference_queue h') \<union> set (weak_reference_queue h')
                      \<union> set (finalizer_reference_queue h') \<union> set (phantom_reference_queue h')
                      \<union> set (cleared_reference_list h')"
    by (simp add: GetPendingNext_def enqueued_def) blast
  then show ?thesis by (simp add: IsEnqueuable_def)
qed

theorem reference_fields_enqueued_enqueuable_witness:
  "queue_invariant references0 \<and> keeps_queue_invariant recursive_mark0
   \<and> (\<exists>h'. ProcessReferences True False False is_marked0 recursive_mark0 references0
        = Some (Ret (),
           [StartSplit ''ProcessReferences'', EndSplit,
            StartSplit ''EnqueueFinalizerReferences'', EndSplit,
            StartSplit ''ProcessReferences'', EndSplit], h')
      \<and> cleared_reference_list h' = [0x130, 0x140, 0x120]
      \<and> GetFieldObject (object_memory h') 0x100 (reference_pendingNext_offset (offsets h')) = 0
      \<and> 0x100 \<notin> set (soft_reference_queue h') \<union> set (weak_reference_queue h')
                      \<union> set (finalizer_reference_queue h') \<union> set (phantom_reference_queue h')
                      \<union> set (cleared_reference_list h')
      \<and> GetFieldObject (object_memory h') 0x140 (reference_pendingNext_offset (offsets h')) \<noteq> 0
      \<and> GetFieldObject (object_memory h') 0x110 (reference_queue_offset (offsets h')) \<noteq> 0
      \<and> GetFieldObject (object_memory h') 0x110 (reference_queueNext_offset (offsets h')) = 0
      \<and> IsEnqueuable True (offsets h') (object_memory h') 0x110 = Ret True)"
proof -
  from ProcessReferences_references0 obtain h' where
    run: "ProcessReferences True False False is_marked0 recursive_mark0 references0
        = Some (Ret (),
           [StartSplit ''ProcessReferences'', EndSplit,
            StartSplit ''EnqueueFinalizerReferences'', EndSplit,
            StartSplit ''ProcessReferences'', EndSplit], h')"
    and cl: "cleared_reference_list h' = [0x130, 0x140, 0x120]"
    and pn: "GetPendingNext h' 0x100 = 0"
    and f: "offsets h' = offsets0"
      "GetFieldObject (object_memory h') 0x110 (reference_queue_offset offsets0) = 0x900"
      "GetFieldObject (object_memory h') 0x110 (reference_queueNext_offset offsets0) = 0"
    by blast
  note t = reference_fields_enqueued_enqueuable
    [OF queue_invariant_references0 keeps_queue_invariant_recursive_mark0 run, of True]
  from f have q: "(0x110 :: obj) \<noteq> 0
      \<and> GetFieldObject (object_memory h') 0x110 (reference_queue_offset (offsets h')) \<noteq> 0"
    and qn: "GetFieldObject (object_memory h') 0x110 (reference_queueNext_offset (offsets h')) = 0"
    by simp_all
  from t q qn have 3: "IsEnqueuable True (offsets h') (object_memory h') 0x110 = Ret True"
    by blast
  from t pn have 1: "0x100 \<notin> set (soft_reference_queue h') \<union> set (weak_reference_queue h')
                      \<union> set (finalizer_reference_queue h') \<union> set (phantom_reference_queue h')
                      \<union> set (cleared_reference_list h')"
    unfolding GetPendingNext_def by blast
  from t cl have 2: "GetFieldObject (object_memory h') 0x140
      (reference_pendingNext_offset (offsets h')) \<noteq> 0"
    by (metis UnCI list.set_intros(1) list.set_intros(2))
  from run cl pn 1 2 3 q qn queue_invariant_references0 keeps_queue_invariant_recursive_mark0
  show ?thesis unfolding GetPendingNext_def by blast
qed

subsection \<open>Bin packing before the zygote fork\<close>

lemma mset_multimap_insert: "mset (multimap_insert kv m) = add_mset kv (mset m)"
  by (induction m) simp_all

lemma set_multimap_insert: "set (multimap_insert kv m) = insert kv (set m)"
  by (induction m) auto

lemma sorted_multimap_insert:
  "sorted (map fst m) \<Longrightarrow> sorted (map fst (multimap_insert kv m))"
  by (induction m) (auto simp add: set_multimap_insert)

lemma AddBin_bins:
  "bins (AddBin sz position c)
     = (if sz \<noteq> 0 then multimap_insert (sz, position) (bins c) else bins c)"
  by (simp add: AddBin_def)

lemma AddBin_frame:
  "bitmaps (AddBin sz position c) = bitmaps c"
  "to_space (AddBin sz position c) = to_space c"
  "bin_live_bitmap (AddBin sz position c) = bin_live_bitmap c"
  by (simp_all add: AddBin_def)

lemma mset_AddBin:
  "mset (bins (AddBin sz position c))
     = mset (bins c) + mset (filter (\<lambda>(s, p). s \<noteq> 0) [(sz, position)])"
  by (simp add: AddBin_bins mset_multimap_insert)

lemma sorted_AddBin:
  "sorted (map fst (bins c)) \<Longrightarrow> sorted (map fst (bins (AddBin sz position c)))"
  by (simp add: AddBin_bins sorted_multimap_insert)

lemma Walk_Callback_bins:
  "mset (bins (AddBin (limit - prev (fold (Callback SizeOf) objs ctx))
                 (prev (fold (Callback SizeOf) objs ctx))
                 (collector (fold (Callback SizeOf) objs ctx))))
   = mset (bins (collector ctx))
     + mset (filter (\<lambda>(s, p). s \<noteq> 0)
         (gaps (prev ctx)
            (map (\<lambda>obj. (obj, RoundUp (SizeOf obj) kObjectAlignment)) objs) limit))"
proof (induction objs arbitrary: ctx)
  case Nil
  show ?case by (simp add: mset_AddBin)
next
  case (Cons obj objs)
  show ?case
    by (simp add: Cons.IH [of "Callback SizeOf obj ctx"])
       (simp add: Callback_def Let_def mset_AddBin)
qed

lemma Walk_Callback_sorted:
  "sorted (map fst (bins (collector ctx))) \<Longrightarrow>
   sorted (map fst (bins (collector (fold (Callback SizeOf) objs ctx))))"
proof (induction objs arbitrary: ctx)
  case Nil
  then show ?case by simp
next
  case (Cons obj objs)
  have "sorted (map fst (bins (collector (Callback SizeOf obj ctx))))"
    using Cons.prems by (simp add: Callback_def Let_def sorted_AddBin)
  from Cons.IH [OF this] show ?case by simp
qed

lemma BuildBins_bins:
  "mset (bins (BuildBins SizeOf space c))
     = mset (bins c)
       + mset (filter (\<lambda>(s, p). s \<noteq> 0) (gaps (Begin space) (live_objects SizeOf space c) (End space)))"
  unfolding BuildBins_def Let_def Walk_def live_objects_def
  by (simp add: Walk_Callback_bins)

lemma BuildBins_sorted:
  "sorted (map fst (bins c)) \<Longrightarrow> sorted (map fst (bins (BuildBins SizeOf space c)))"
  unfolding BuildBins_def Let_def Walk_def
  by (rule sorted_AddBin, rule Walk_Callback_sorted) simp

lemma lower_bound_le: "lower_bound k m \<le> length m"
  by (simp add: lower_bound_def length_takeWhile_le)

lemma lower_bound_end: "lower_bound k m = length m \<longleftrightarrow> (\<forall>b \<in> set m. fst b < k)"
proof -
  have "length (takeWhile (\<lambda>b. fst b < k) m) = length m \<longleftrightarrow> (\<forall>b \<in> set m. fst b < k)"
    by (induction m) (auto dest: le_less_trans [OF length_takeWhile_le])
  then show ?thesis by (simp add: lower_bound_def)
qed

lemma lower_bound_fits:
  "lower_bound k m \<noteq> length m \<Longrightarrow> k \<le> fst (m ! lower_bound k m)"
  using nth_length_takeWhile [of "\<lambda>b. fst b < k" m] lower_bound_le [of k m]
  by (simp add: lower_bound_def not_less)

lemma lower_bound_smallest:
  assumes "sorted (map fst m)" "b \<in> set m" "k \<le> fst b"
  shows "fst (m ! lower_bound k m) \<le> fst b"
proof -
  from assms(2) obtain i where i: "i < length m" "m ! i = b" by (auto simp add: in_set_conv_nth)
  have "lower_bound k m \<le> i"
  proof (rule ccontr)
    assume "\<not> lower_bound k m \<le> i"
    then have "i < length (takeWhile (\<lambda>b. fst b < k) m)" by (simp add: lower_bound_def)
    then have "fst (m ! i) < k"
      using takeWhile_nth [of i "\<lambda>b. fst b < k" m] nth_mem set_takeWhileD by metis
    with i assms(3) show False by simp
  qed
  with assms(1) i have "map fst m ! lower_bound k m \<le> map fst m ! i"
    by (intro sorted_nth_mono) simp_all
  with i \<open>lower_bound k m \<le> i\<close> show ?thesis by simp
qed

lemma mset_multimap_erase:
  "it < length m \<Longrightarrow> mset (multimap_erase it m) = mset m - {#m ! it#}"
  unfolding multimap_erase_def
  by (subst (3) id_take_nth_drop [of it m]) simp_all

lemma sorted_multimap_erase:
  "sorted (map fst m) \<Longrightarrow> sorted (map fst (multimap_erase it m))"
  unfolding multimap_erase_def
proof (induction m arbitrary: it)
  case Nil
  then show ?case by simp
next
  case (Cons b m)
  show ?case
  proof (cases it)
    case 0
    with Cons.prems show ?thesis by simp
  next
    case (Suc j)
    have "sorted (map fst (take j m @ drop (Suc j) m))"
      using Cons.prems by (intro Cons.IH) simp
    moreover have "\<forall>x \<in> set (take j m @ drop (Suc j) m). fst b \<le> fst x"
      using Cons.prems by (auto dest: in_set_takeD in_set_dropD)
    ultimately show ?thesis using Suc by auto
  qed
qed

lemma SetBit_frame:
  "bins (SetBit b a c) = bins c" "to_space (SetBit b a c) = to_space c"
  "memcpy_log (SetBit b a c) = memcpy_log c"
  "bin_live_bitmap (SetBit b a c) = bin_live_bitmap c"
  "bin_mark_bitmap (SetBit b a c) = bin_mark_bitmap c"
  by (simp_all add: SetBit_def)

lemma AddBin_frame2:
  "memcpy_log (AddBin sz position c) = memcpy_log c"
  by (simp add: AddBin_def)

lemma MarkNonForwardedObject_fits:
  assumes fit: "lower_bound (RoundUp (SizeOf obj) kObjectAlignment) (bins c) \<noteq> length (bins c)"
  shows "\<exists>c'. MarkNonForwardedObject dbg SizeOf Alloc obj c
           = Ret (snd (bins c ! lower_bound (RoundUp (SizeOf obj) kObjectAlignment) (bins c)), c')
         \<and> bins c' = bins (AddBin
               (fst (bins c ! lower_bound (RoundUp (SizeOf obj) kObjectAlignment) (bins c))
                  - RoundUp (SizeOf obj) kObjectAlignment)
               (snd (bins c ! lower_bound (RoundUp (SizeOf obj) kObjectAlignment) (bins c))
                  + RoundUp (SizeOf obj) kObjectAlignment)
               (c\<lparr>bins := multimap_erase
                    (lower_bound (RoundUp (SizeOf obj) kObjectAlignment) (bins c)) (bins c)\<rparr>))
         \<and> to_space c' = to_space c
         \<and> memcpy_log c' = memcpy_log c @
              [(snd (bins c ! lower_bound (RoundUp (SizeOf obj) kObjectAlignment) (bins c)), obj,
                RoundUp (SizeOf obj) kObjectAlignment)]"
  using fit lower_bound_fits [OF fit]
  by (simp add: MarkNonForwardedObject_def Let_def AddBin_bins AddBin_frame AddBin_frame2
      SetBit_frame)

lemma MarkNonForwardedObject_appends:
  assumes "lower_bound (RoundUp (SizeOf obj) kObjectAlignment) (bins c) = length (bins c)"
  shows "\<exists>c'. MarkNonForwardedObject dbg SizeOf Alloc obj c
           = Ret (fst (Alloc (RoundUp (SizeOf obj) kObjectAlignment) (to_space c)), c')
         \<and> bins c' = bins c
         \<and> to_space c' = snd (Alloc (RoundUp (SizeOf obj) kObjectAlignment) (to_space c))
         \<and> memcpy_log c' = memcpy_log c @
              [(fst (Alloc (RoundUp (SizeOf obj) kObjectAlignment) (to_space c)), obj,
                RoundUp (SizeOf obj) kObjectAlignment)]"
  using assms
  by (simp add: MarkNonForwardedObject_def Let_def SetBit_frame split: prod.split option.split)

lemma MarkNonForwardedObject_best_fit:
  assumes srt: "sorted (map fst (bins c))"
  shows "\<exists>forward_address c'.
     MarkNonForwardedObject dbg SizeOf Alloc obj c = Ret (forward_address, c')
     \<and> sorted (map fst (bins c'))
     \<and> memcpy_log c' = memcpy_log c
          @ [(forward_address, obj, RoundUp (SizeOf obj) kObjectAlignment)]
     \<and> (if \<exists>b \<in> set (bins c). RoundUp (SizeOf obj) kObjectAlignment \<le> fst b
        then to_space c' = to_space c
           \<and> (\<exists>sz. (sz, forward_address) \<in> set (bins c)
                \<and> RoundUp (SizeOf obj) kObjectAlignment \<le> sz
                \<and> (\<forall>b \<in> set (bins c). RoundUp (SizeOf obj) kObjectAlignment \<le> fst b \<longrightarrow> sz \<le> fst b)
                \<and> mset (bins c') = mset (bins c) - {#(sz, forward_address)#}
                     + mset (filter (\<lambda>(s, p). s \<noteq> 0)
                         [(sz - RoundUp (SizeOf obj) kObjectAlignment,
                           forward_address + RoundUp (SizeOf obj) kObjectAlignment)]))
        else (forward_address, to_space c')
               = Alloc (RoundUp (SizeOf obj) kObjectAlignment) (to_space c)
           \<and> bins c' = bins c)"
proof -
  define k where "k = RoundUp (SizeOf obj) kObjectAlignment"
  define it where "it = lower_bound k (bins c)"
  show ?thesis
  proof (cases "\<exists>b \<in> set (bins c). k \<le> fst b")
    case True
    then have ne: "it \<noteq> length (bins c)"
      unfolding it_def by (auto simp add: lower_bound_end not_less)
    with lower_bound_le [of k "bins c"] have lt: "it < length (bins c)"
      unfolding it_def by simp
    obtain sz pos where b: "bins c ! it = (sz, pos)" by (cases "bins c ! it")
    from lt b have mem: "(sz, pos) \<in> set (bins c)" by (metis nth_mem)
    from lower_bound_fits [of k "bins c"] ne b have fits: "k \<le> sz"
      unfolding it_def by simp
    have least: "\<forall>b \<in> set (bins c). k \<le> fst b \<longrightarrow> sz \<le> fst b"
      using lower_bound_smallest [OF srt, of _ k] b unfolding it_def by auto
    from MarkNonForwardedObject_fits [of SizeOf obj c dbg Alloc] ne
    obtain c' where run: "MarkNonForwardedObject dbg SizeOf Alloc obj c = Ret (pos, c')"
      and bins': "bins c' = bins (AddBin (sz - k) (pos + k) (c\<lparr>bins := multimap_erase it (bins c)\<rparr>))"
      and ts: "to_space c' = to_space c"
      and log: "memcpy_log c' = memcpy_log c @ [(pos, obj, k)]"
      unfolding it_def k_def using b [unfolded it_def k_def] by auto
    have "sorted (map fst (bins (c\<lparr>bins := multimap_erase it (bins c)\<rparr>)))"
      using srt by (simp add: sorted_multimap_erase)
    then have srt': "sorted (map fst (bins c'))"
      unfolding bins' by (rule sorted_AddBin)
    have ms: "mset (bins c') = mset (bins c) - {#(sz, pos)#}
        + mset (filter (\<lambda>(s, p). s \<noteq> 0) [(sz - k, pos + k)])"
      unfolding bins' mset_AddBin using lt b by (simp add: mset_multimap_erase)
    from True run srt' log ts mem fits least ms show ?thesis
      unfolding k_def [symmetric] by (intro exI [of _ pos] exI [of _ c']) auto
  next
    case False
    then have e: "it = length (bins c)"
      unfolding it_def by (auto simp add: lower_bound_end not_le)
    from MarkNonForwardedObject_appends [of SizeOf obj c dbg Alloc] e
    obtain c' where run: "MarkNonForwardedObject dbg SizeOf Alloc obj c
         = Ret (fst (Alloc k (to_space c)), c')"
      and bins': "bins c' = bins c"
      and ts: "to_space c' = snd (Alloc k (to_space c))"
      and log: "memcpy_log c' = memcpy_log c @ [(fst (Alloc k (to_space c)), obj, k)]"
      unfolding it_def k_def by auto
    from False run bins' ts log srt show ?thesis
      unfolding k_def [symmetric]
      by (intro exI [of _ "fst (Alloc k (to_space c))"] exI [of _ c']) simp
  qed
qed

lemma BuildBins_space0:
  "bins (BuildBins SizeOf0 space0 zygote_collector0)
     = [(0x10, 0x1000), (0x20, 0x1020), (0xA0, 0x1060)]"
  by (simp add: BuildBins_def Walk_def Callback_def AddBin_def Let_def RoundUp_def
      kObjectAlignment_def space0_def zygote_collector0_def SizeOf0_def)

lemma MarkNonForwardedObject_space0:
  "\<exists>c'. MarkNonForwardedObject True SizeOf0 bump_Alloc 0x5000
           (BuildBins SizeOf0 space0 zygote_collector0) = Ret (0x1020, c')
     \<and> bins c' = [(8, 0x1038), (0x10, 0x1000), (0xA0, 0x1060)]
     \<and> to_space c' = 0x1100
     \<and> memcpy_log c' = [(0x1020, 0x5000, 24)]
     \<and> bitmaps c' 0 = [0x1010, 0x1020, 0x1040]"
  by (simp add: MarkNonForwardedObject_def lower_bound_def multimap_erase_def SetBit_def
      BuildBins_def Walk_def Callback_def AddBin_def Let_def RoundUp_def
      kObjectAlignment_def space0_def zygote_collector0_def SizeOf0_def bump_Alloc_def)

lemma MarkNonForwardedObject_space0_append:
  "\<exists>c'. MarkNonForwardedObject True SizeOf0 bump_Alloc 0x6000
           (BuildBins SizeOf0 space0 zygote_collector0) = Ret (0x1100, c')
     \<and> bins c' = [(0x10, 0x1000), (0x20, 0x1020), (0xA0, 0x1060)]
     \<and> to_space c' = 0x1300
     \<and> memcpy_log c' = [(0x1100, 0x6000, 0x200)]"
  by (simp add: MarkNonForwardedObject_def lower_bound_def multimap_erase_def SetBit_def
      BuildBins_def Walk_def Callback_def AddBin_def Let_def RoundUp_def
      kObjectAlignment_def space0_def zygote_collector0_def SizeOf0_def bump_Alloc_def)

text \<open>C8, as the claim states it, fails: the walk starts at the beginning of the space, so
  the free bytes in front of the first live object are a bin as well. In a space from
  0x1000 to 0x1100 with live objects at 0x1010 (16 bytes) and 0x1040 (32 bytes) the bins
  are three, and the first of them is neither a gap between two live objects nor the tail
  gap.\<close>

theorem BuildBins_leading_gap_counterexample:
  "bins (BuildBins SizeOf0 space0 zygote_collector0)
     = [(0x10, 0x1000), (0x20, 0x1020), (0xA0, 0x1060)]
   \<and> gaps_between_objects (Begin space0) (live_objects SizeOf0 space0 zygote_collector0) (End space0)
     = [(0x20, 0x1020), (0xA0, 0x1060)]"
  by (simp add: BuildBins_space0)
     (simp add: live_objects_def RoundUp_def
      kObjectAlignment_def space0_def zygote_collector0_def SizeOf0_def)

text \<open>C8, amended. \<^verbatim>\<open>BuildBins\<close> adds to the bins exactly the non-empty gaps of the space in
  increasing address order: the gap from the beginning of the space to the first live
  object, the gaps between consecutive live objects, and the tail gap to the end of the
  space; the bins stay ordered by size. \<^verbatim>\<open>MarkNonForwardedObject\<close> copies an object to the
  position of a bin whose size is at least the aligned size of the object and is the
  smallest such size; that bin is removed and its remainder, if not empty, is added as a
  new bin behind the object. When no bin is large enough, the object is copied to the
  address that \<^verbatim>\<open>Alloc\<close> of the target space returns and the bins are unchanged.\<close>

theorem zygote_bin_packing:
  "mset (bins (BuildBins SizeOf space c))
     = mset (bins c)
       + mset (filter (\<lambda>(s, p). s \<noteq> 0) (gaps (Begin space) (live_objects SizeOf space c) (End space)))
   \<and> (sorted (map fst (bins c)) \<longrightarrow>
        sorted (map fst (bins (BuildBins SizeOf space c)))
        \<and> (\<exists>forward_address c'.
             MarkNonForwardedObject dbg SizeOf Alloc obj c = Ret (forward_address, c')
             \<and> sorted (map fst (bins c'))
             \<and> memcpy_log c' = memcpy_log c
                  @ [(forward_address, obj, RoundUp (SizeOf obj) kObjectAlignment)]
             \<and> (if \<exists>b \<in> set (bins c). RoundUp (SizeOf obj) kObjectAlignment \<le> fst b
                then to_space c' = to_space c
                   \<and> (\<exists>sz. (sz, forward_address) \<in> set (bins c)
                        \<and> RoundUp (SizeOf obj) kObjectAlignment \<le> sz
                        \<and> (\<forall>b \<in> set (bins c).
                              RoundUp (SizeOf obj) kObjectAlignment \<le> fst b \<longrightarrow> sz \<le> fst b)
                        \<and> mset (bins c') = mset (bins c) - {#(sz, forward_address)#}
                             + mset (filter (\<lambda>(s, p). s \<noteq> 0)
                                 [(sz - RoundUp (SizeOf obj) kObjectAlignment,
                                   forward_address + RoundUp (SizeOf obj) kObjectAlignment)]))
                else (forward_address, to_space c')
                       = Alloc (RoundUp (SizeOf obj) kObjectAlignment) (to_space c)
                   \<and> bins c' = bins c)))"
  using BuildBins_bins [of SizeOf space c] BuildBins_sorted [of c SizeOf space]
    MarkNonForwardedObject_best_fit [of c dbg SizeOf Alloc obj]
  by blast

theorem zygote_bin_packing_witness:
  "sorted (map fst (bins zygote_collector0))
   \<and> mset (bins (BuildBins SizeOf0 space0 zygote_collector0))
       = {#(0x10, 0x1000), (0x20, 0x1020), (0xA0, 0x1060)#}
   \<and> sorted (map fst (bins (BuildBins SizeOf0 space0 zygote_collector0)))
   \<and> (\<exists>c'. MarkNonForwardedObject True SizeOf0 bump_Alloc 0x5000
              (BuildBins SizeOf0 space0 zygote_collector0) = Ret (0x1020, c')
         \<and> bins c' = [(8, 0x1038), (0x10, 0x1000), (0xA0, 0x1060)]
         \<and> sorted (map fst (bins c')))
   \<and> (\<exists>c'. MarkNonForwardedObject True SizeOf0 bump_Alloc 0x6000
              (BuildBins SizeOf0 space0 zygote_collector0) = Ret (0x1100, c')
         \<and> to_space c' = 0x1300
         \<and> bins c' = bins (BuildBins SizeOf0 space0 zygote_collector0))"
proof -
  let ?c = "BuildBins SizeOf0 space0 zygote_collector0"
  have s0: "sorted (map fst (bins zygote_collector0))"
    by (simp add: zygote_collector0_def)
  have g: "filter (\<lambda>(s, p). s \<noteq> 0)
      (gaps (Begin space0) (live_objects SizeOf0 space0 zygote_collector0) (End space0))
      = [(0x10, 0x1000), (0x20, 0x1020), (0xA0, 0x1060)]"
    by (simp add: live_objects_def RoundUp_def
      kObjectAlignment_def space0_def zygote_collector0_def SizeOf0_def)
  have b0: "bins zygote_collector0 = []" by (simp add: zygote_collector0_def)
  have 1: "mset (bins ?c) = {#(0x10, 0x1000), (0x20, 0x1020), (0xA0, 0x1060)#}"
    using zygote_bin_packing [where SizeOf = SizeOf0 and space = space0 and c = zygote_collector0] by (simp add: g b0)
  have 2: "sorted (map fst (bins ?c))"
    using zygote_bin_packing [where SizeOf = SizeOf0 and space = space0 and c = zygote_collector0] s0 by blast
  obtain c1 where r1: "MarkNonForwardedObject True SizeOf0 bump_Alloc 0x5000 ?c = Ret (0x1020, c1)"
    and b1: "bins c1 = [(8, 0x1038), (0x10, 0x1000), (0xA0, 0x1060)]"
    using MarkNonForwardedObject_space0 by blast
  have 3: "sorted (map fst (bins c1))"
    using zygote_bin_packing [where SizeOf = SizeOf0 and space = space0 and c = ?c and dbg = True
        and Alloc = bump_Alloc and obj = "0x5000"] 2 r1 by auto
  obtain c2 where r2: "MarkNonForwardedObject True SizeOf0 bump_Alloc 0x6000 ?c = Ret (0x1100, c2)"
    and t2: "to_space c2 = 0x1300"
    using MarkNonForwardedObject_space0_append by blast
  have nofit: "\<not> (\<exists>b \<in> set (bins ?c). RoundUp (SizeOf0 0x6000) kObjectAlignment \<le> fst b)"
    by (simp add: BuildBins_space0 RoundUp_def kObjectAlignment_def SizeOf0_def)
  have 4: "bins c2 = bins ?c"
    using zygote_bin_packing [where SizeOf = SizeOf0 and space = space0 and c = ?c and dbg = True
        and Alloc = bump_Alloc and obj = "0x6000"] 2 r2 nofit by auto
  from s0 1 2 r1 b1 3 r2 t2 4 show ?thesis by blast
qed

end
